theory Spec2Isabelle
  imports Complex_Main "HOL-Library.Multiset"
begin

section \<open>Data model\<close>

text \<open>
  The drone delivery engine is written in JavaScript. Numbers are IEEE doubles in the
  source; they are modelled as real numbers, so rounding, NaN and the infinities are
  idealised away except where a division by zero decides a branch (the assignment
  score, modelled by \<open>jsnum\<close> below). Objects are shared by reference in the source:
  orders and drones live in a store indexed by references (natural numbers), and an
  array of objects is a list of references.
\<close>

record point =
  px :: real
  py :: real

datatype priority = Alta | Media | Baixa

datatype order_status = Pending | Assigned | Delivered | Cancelled

datatype drone_status = Idle | Loading | Flying | Delivering | Returning

text \<open>Class \<open>Order\<close>: the fields set by its constructor.\<close>

record order =
  order_id :: nat
  location :: point
  weight :: real
  priority :: priority
  status :: order_status
  createdAt :: int
  assignedDrone :: "nat option"
  deliveredAt :: "int option"
  estimatedDeliveryTime :: "int option"

datatype waypoint_type = Base | Delivery

text \<open>A route element \<open>{x, y, type, order}\<close>: a point with a tag and an order reference.\<close>

record waypoint = point +
  wtype :: waypoint_type
  worder :: "nat option"

text \<open>Class \<open>Drone\<close>: the fields set by its constructor; \<open>assignedOrders\<close> holds references.\<close>

record drone =
  drone_id :: nat
  capacity :: real
  range_km :: real
  currentLoad :: real
  battery :: real
  position :: point
  dstatus :: drone_status
  assignedOrders :: "nat list"
  currentRoute :: "waypoint list"
  totalDistance :: real
  deliveriesCount :: nat
  basePosition :: point
  currentRouteIndex :: nat
  speed :: real

text \<open>The store: what each order reference and each drone reference points to.\<close>

record world =
  orders_of :: "nat \<Rightarrow> order"
  drones_of :: "nat \<Rightarrow> drone"

section \<open>Drone: feasibility and assignment\<close>

text \<open>\<open>Drone.calculateDistance\<close> (and its copies in the other classes).\<close>

definition calculateDistance :: "'a point_scheme \<Rightarrow> 'b point_scheme \<Rightarrow> real" where
  "calculateDistance point1 point2 =
     (let dx = px point2 - px point1;
          dy = py point2 - py point1
      in sqrt (dx * dx + dy * dy))"

text \<open>\<open>Drone.calculateBatteryNeeded\<close>: about 5 percent of battery per km.\<close>

definition calculateBatteryNeeded :: "real \<Rightarrow> real" where
  "calculateBatteryNeeded distance = min 100 (distance * 5)"

text \<open>\<open>Drone.canCarryOrder\<close>.\<close>

definition canCarryOrder :: "drone \<Rightarrow> order \<Rightarrow> bool" where
  "canCarryOrder this ord =
     (let newLoad = currentLoad this + weight ord;
          distanceToOrder = calculateDistance (position this) (location ord);
          distanceToBase = calculateDistance (location ord) (basePosition this);
          totalDistance = distanceToOrder + distanceToBase
      in newLoad \<le> capacity this \<and>
         totalDistance \<le> range_km this \<and>
         battery this \<ge> calculateBatteryNeeded totalDistance)"

text \<open>
  \<open>Drone.assignOrder\<close>, on drone reference \<open>d\<close> and order reference \<open>r\<close>: the
  returned boolean and the store after the call.
\<close>

definition assignOrder :: "world \<Rightarrow> nat \<Rightarrow> nat \<Rightarrow> bool \<times> world" where
  "assignOrder w d r =
     (let this = drones_of w d; ord = orders_of w r
      in if canCarryOrder this ord
         then (True,
               w\<lparr>drones_of := (drones_of w)
                     (d := this\<lparr>assignedOrders := assignedOrders this @ [r],
                               currentLoad := currentLoad this + weight ord\<rparr>),
                 orders_of := (orders_of w)
                     (r := ord\<lparr>status := Assigned,
                              assignedDrone := Some (drone_id this)\<rparr>)\<rparr>)
         else (False, w))"

section \<open>JavaScript helpers\<close>

text \<open>
  \<open>Array.prototype.sort\<close> with a comparator is a stable sort: an element stays before
  the ones it does not compare greater than. All comparators of the source are
  differences of numeric keys, for which the result is the stable insertion sort.
\<close>

fun js_insert :: "('a \<Rightarrow> 'a \<Rightarrow> real) \<Rightarrow> 'a \<Rightarrow> 'a list \<Rightarrow> 'a list" where
  "js_insert cmp x [] = [x]"
| "js_insert cmp x (y # ys) =
     (if cmp x y \<le> 0 then x # y # ys else y # js_insert cmp x ys)"

definition js_sort :: "('a \<Rightarrow> 'a \<Rightarrow> real) \<Rightarrow> 'a list \<Rightarrow> 'a list" where
  "js_sort cmp xs = foldr (js_insert cmp) xs []"

text \<open>
  A JavaScript number that may be NaN or infinite: the quotient of two finite numbers
  (\<open>jdiv\<close>), its product with a finite number (\<open>jmul\<close>), its quotient by a finite
  number (\<open>jdivr\<close>) and the comparison \<open>>\<close> (\<open>jgt\<close>), which is false on NaN.
\<close>

datatype jsnum = NaN | NegInf | Fin real | PosInf

definition jsign :: "real \<Rightarrow> bool \<Rightarrow> jsnum" where
  "jsign b pos = (if b = 0 then NaN else if (0 < b) = pos then PosInf else NegInf)"

definition jdiv :: "real \<Rightarrow> real \<Rightarrow> jsnum" where
  "jdiv a b = (if b \<noteq> 0 then Fin (a / b) else jsign a True)"

fun jmul :: "jsnum \<Rightarrow> real \<Rightarrow> jsnum" where
  "jmul NaN b = NaN"
| "jmul (Fin a) b = Fin (a * b)"
| "jmul PosInf b = jsign b True"
| "jmul NegInf b = jsign b False"

fun jdivr :: "jsnum \<Rightarrow> real \<Rightarrow> jsnum" where
  "jdivr NaN c = NaN"
| "jdivr (Fin a) c = jdiv a c"
| "jdivr PosInf c = (if 0 \<le> c then PosInf else NegInf)"
| "jdivr NegInf c = (if 0 \<le> c then NegInf else PosInf)"

fun jgt :: "jsnum \<Rightarrow> jsnum \<Rightarrow> bool" where
  "jgt NaN y = False"
| "jgt x NaN = False"
| "jgt (Fin a) (Fin b) = (b < a)"
| "jgt PosInf y = (y \<noteq> PosInf)"
| "jgt x NegInf = (x \<noteq> NegInf)"
| "jgt x y = False"

datatype error = TypeError

section \<open>Order\<close>

text \<open>
  \<open>Order.getWaitingTime\<close>: whole minutes since creation. The source reads the clock
  at each call; the model takes the clock reading \<open>now\<close> (milliseconds) as a parameter,
  one reading for a whole optimisation.
\<close>

definition getWaitingTime :: "int \<Rightarrow> order \<Rightarrow> int" where
  "getWaitingTime now this = \<lfloor>real_of_int (now - createdAt this) / (1000 * 60)\<rfloor>"

section \<open>OptimizationAlgorithm: results\<close>

record assignment =
  a_drone :: nat
  a_orders :: "nat list"
  a_totalWeight :: "real option"
  a_clusterDistance :: "real option"

text \<open>The message templates, with the number each one prints.\<close>

datatype message =
    SemPedidosOuDrones
  | PedidosAtribuidosGuloso nat
  | DronesOtimizadosCapacidade nat
  | DronesOtimizadosDistancia nat

text \<open>
  The result object. The empty-input result has neither an \<open>assignments\<close> nor a
  \<open>strategy\<close> property.
\<close>

record result =
  success :: bool
  message :: message
  assignments :: "assignment list option"
  strategy :: "string option"

section \<open>OptimizationAlgorithm: greedy assignment\<close>

text \<open>\<open>calculateAssignmentScore\<close>.\<close>

definition calculateAssignmentScore :: "order \<Rightarrow> drone \<Rightarrow> jsnum" where
  "calculateAssignmentScore ord drone =
     (let distance = calculateDistance (position drone) (location ord);
          capacityUtilization = jdiv (currentLoad drone + weight ord) (capacity drone);
          batteryFactor = battery drone / 100
      in jdivr (jmul capacityUtilization batteryFactor) (distance + 0.1))"

text \<open>The inner loop of \<open>greedyAssignment\<close>: the best drone for one order.\<close>

fun bestDroneLoop :: "world \<Rightarrow> nat \<Rightarrow> nat list \<Rightarrow> nat option \<times> jsnum \<Rightarrow> nat option \<times> jsnum" where
  "bestDroneLoop w r [] best = best"
| "bestDroneLoop w r (d # ds) (bestDrone, bestScore) =
     (if canCarryOrder (drones_of w d) (orders_of w r)
      then (let score = calculateAssignmentScore (orders_of w r) (drones_of w d)
            in if jgt score bestScore
               then bestDroneLoop w r ds (Some d, score)
               else bestDroneLoop w r ds (bestDrone, bestScore))
      else bestDroneLoop w r ds (bestDrone, bestScore))"

text \<open>\<open>assignments.find(a => a.drone === bestDrone.id)\<close>, then \<open>orders.push\<close> on it.\<close>

fun pushToExisting :: "nat \<Rightarrow> nat \<Rightarrow> assignment list \<Rightarrow> assignment list" where
  "pushToExisting did oid [] = []"
| "pushToExisting did oid (a # as) =
     (if a_drone a = did then a\<lparr>a_orders := a_orders a @ [oid]\<rparr> # as
      else a # pushToExisting did oid as)"

text \<open>The outer loop of \<open>greedyAssignment\<close> over the orders.\<close>

fun greedyLoop :: "nat list \<Rightarrow> nat list \<Rightarrow> world \<times> assignment list \<times> nat
    \<Rightarrow> world \<times> assignment list \<times> nat" where
  "greedyLoop availableDrones [] st = st"
| "greedyLoop availableDrones (r # rs) (w, asgs, assignedOrdersCount) =
     (if status (orders_of w r) \<noteq> Pending
      then greedyLoop availableDrones rs (w, asgs, assignedOrdersCount)
      else (case fst (bestDroneLoop w r availableDrones (None, Fin (- 1))) of
              None \<Rightarrow> greedyLoop availableDrones rs (w, asgs, assignedOrdersCount)
            | Some bestDrone \<Rightarrow>
                (case assignOrder w bestDrone r of
                   (False, _) \<Rightarrow>
                     greedyLoop availableDrones rs (w, asgs, assignedOrdersCount)
                 | (True, w') \<Rightarrow>
                     greedyLoop availableDrones rs
                       (w',
                        (if length (assignedOrders (drones_of w' bestDrone)) = 1
                         then asgs @
                              [\<lparr>a_drone = drone_id (drones_of w' bestDrone),
                                a_orders = [order_id (orders_of w' r)],
                                a_totalWeight = None, a_clusterDistance = None\<rparr>]
                         else pushToExisting (drone_id (drones_of w' bestDrone))
                                (order_id (orders_of w' r)) asgs),
                        assignedOrdersCount + 1))))"

definition greedyAssignment :: "world \<Rightarrow> nat list \<Rightarrow> nat list \<Rightarrow> result \<times> world" where
  "greedyAssignment w orders drones =
     (let availableDrones = filter (\<lambda>d. dstatus (drones_of w d) = Idle) drones
      in case greedyLoop availableDrones orders (w, [], 0) of
           (w', asgs, assignedOrdersCount) \<Rightarrow>
             (\<lparr>success = (assignedOrdersCount > 0),
               message = PedidosAtribuidosGuloso assignedOrdersCount,
               assignments = Some asgs,
               strategy = Some ''greedy_assignment''\<rparr>, w'))"

text \<open>\<open>priorityFirstOptimization\<close>: priority first, then the longer wait.\<close>

definition priorityScores100 :: "priority \<Rightarrow> real" where
  "priorityScores100 p = (case p of Alta \<Rightarrow> 100 | Media \<Rightarrow> 50 | Baixa \<Rightarrow> 10)"

definition priorityFirstCompare :: "int \<Rightarrow> world \<Rightarrow> nat \<Rightarrow> nat \<Rightarrow> real" where
  "priorityFirstCompare now w a b =
     (let priorityDiff = priorityScores100 (priority (orders_of w b))
                       - priorityScores100 (priority (orders_of w a))
      in if priorityDiff \<noteq> 0 then priorityDiff
         else real_of_int (getWaitingTime now (orders_of w b)
                         - getWaitingTime now (orders_of w a)))"

definition priorityFirstOptimization :: "int \<Rightarrow> world \<Rightarrow> nat list \<Rightarrow> nat list \<Rightarrow> result \<times> world" where
  "priorityFirstOptimization now w orders drones =
     (let sortedOrders = js_sort (priorityFirstCompare now w) orders
      in greedyAssignment w sortedOrders drones)"

text \<open>
  \<open>calculateBalancedScore\<close>. \<open>Math.min\<close> of no argument is \<open>Infinity\<close>, so without
  drones the score is \<open>-Infinity\<close>.
\<close>

definition calculateBalancedScore :: "int \<Rightarrow> world \<Rightarrow> nat \<Rightarrow> nat list \<Rightarrow> jsnum" where
  "calculateBalancedScore now w r drones =
     (let ord = orders_of w r;
          priorityWeight = priorityScores100 (priority ord);
          timeBonus = min (real_of_int (getWaitingTime now ord) * 2) 50
      in if drones = [] then NegInf
         else (let minDistance = Min (set (map (\<lambda>d. calculateDistance
                       (position (drones_of w d)) (location ord)) drones));
                   distancePenalty = minDistance * 5
               in Fin (priorityWeight + timeBonus - distancePenalty)))"

text \<open>
  The comparator \<open>b.score - a.score\<close>: the difference of two infinite scores is NaN,
  which \<open>sort\<close> takes as 0.
\<close>

definition balancedCompare :: "int \<Rightarrow> world \<Rightarrow> nat list \<Rightarrow> nat \<Rightarrow> nat \<Rightarrow> real" where
  "balancedCompare now w drones a b =
     (case (calculateBalancedScore now w b drones, calculateBalancedScore now w a drones) of
        (Fin sb, Fin sa) \<Rightarrow> sb - sa
      | _ \<Rightarrow> 0)"

definition balancedOptimization :: "int \<Rightarrow> world \<Rightarrow> nat list \<Rightarrow> nat list \<Rightarrow> result \<times> world" where
  "balancedOptimization now w orders drones =
     (let scoredOrders = js_sort (balancedCompare now w drones) orders
      in greedyAssignment w scoredOrders drones)"

section \<open>OptimizationAlgorithm: capacity optimisation\<close>

definition priorityScores3 :: "priority \<Rightarrow> real" where
  "priorityScores3 p = (case p of Alta \<Rightarrow> 3 | Media \<Rightarrow> 2 | Baixa \<Rightarrow> 1)"

text \<open>\<open>calculateOrderEfficiencyScore\<close>.\<close>

definition calculateOrderEfficiencyScore :: "int \<Rightarrow> order \<Rightarrow> drone \<Rightarrow> real" where
  "calculateOrderEfficiencyScore now ord drone =
     (let distance = calculateDistance (position drone) (location ord);
          timeWeight = min (real_of_int (getWaitingTime now ord) / 30) 2
      in (priorityScores3 (priority ord) + timeWeight) / (distance + 0.1))"

text \<open>The filling loop of \<open>findBestOrderCombination\<close>.\<close>

fun fillLoop :: "world \<Rightarrow> nat list \<Rightarrow> real \<Rightarrow> nat list" where
  "fillLoop w [] remainingCapacity = []"
| "fillLoop w (r # rs) remainingCapacity =
     (if weight (orders_of w r) \<le> remainingCapacity
      then r # fillLoop w rs (remainingCapacity - weight (orders_of w r))
      else fillLoop w rs remainingCapacity)"

definition findBestOrderCombination :: "int \<Rightarrow> world \<Rightarrow> nat list \<Rightarrow> nat \<Rightarrow> nat list" where
  "findBestOrderCombination now w orders d =
     (let drone = drones_of w d;
          validOrders = filter (\<lambda>r. canCarryOrder drone (orders_of w r)) orders
      in if validOrders = [] then []
         else (let remainingCapacity = capacity drone - currentLoad drone;
                   remainingOrders = js_sort (\<lambda>a b.
                       calculateOrderEfficiencyScore now (orders_of w b) drone
                     - calculateOrderEfficiencyScore now (orders_of w a) drone) validOrders
               in fillLoop w remainingOrders remainingCapacity))"

text \<open>
  \<open>pendingOrders.splice(pendingOrders.indexOf(order), 1)\<close>: the first occurrence goes;
  \<open>indexOf\<close> is \<open>-1\<close> for an absent element and \<open>splice(-1, 1)\<close> removes the last one.
\<close>

definition spliceIndexOf :: "nat \<Rightarrow> nat list \<Rightarrow> nat list" where
  "spliceIndexOf r xs = (if r \<in> set xs then remove1 r xs else butlast xs)"

text \<open>The \<open>forEach\<close> over the best combination of one drone.\<close>

fun assignCombination :: "nat \<Rightarrow> nat list \<Rightarrow> world \<times> nat list \<Rightarrow> world \<times> nat list" where
  "assignCombination d [] st = st"
| "assignCombination d (r # rs) (w, pendingOrders) =
     (case assignOrder w d r of
        (True, w') \<Rightarrow> assignCombination d rs (w', spliceIndexOf r pendingOrders)
      | (False, _) \<Rightarrow> assignCombination d rs (w, pendingOrders))"

fun capacityLoop :: "int \<Rightarrow> nat list \<Rightarrow> world \<times> nat list \<times> assignment list
    \<Rightarrow> world \<times> nat list \<times> assignment list" where
  "capacityLoop now [] st = st"
| "capacityLoop now (d # ds) (w, pendingOrders, asgs) =
     (let bestCombination = findBestOrderCombination now w pendingOrders d
      in if length bestCombination > 0
         then (case assignCombination d bestCombination (w, pendingOrders) of
                 (w', pendingOrders') \<Rightarrow>
                   capacityLoop now ds
                     (w', pendingOrders',
                      asgs @ [\<lparr>a_drone = drone_id (drones_of w' d),
                               a_orders = map (\<lambda>r. order_id (orders_of w' r)) bestCombination,
                               a_totalWeight = Some (foldl (\<lambda>sum r. sum + weight (orders_of w' r))
                                                      0 bestCombination),
                               a_clusterDistance = None\<rparr>]))
         else capacityLoop now ds (w, pendingOrders, asgs))"

definition capacityOptimization :: "int \<Rightarrow> world \<Rightarrow> nat list \<Rightarrow> nat list \<Rightarrow> result \<times> world" where
  "capacityOptimization now w orders drones =
     (let availableDrones = filter (\<lambda>d. dstatus (drones_of w d) = Idle) drones;
          pendingOrders = filter (\<lambda>r. status (orders_of w r) = Pending) orders
      in case capacityLoop now availableDrones (w, pendingOrders, []) of
           (w', _, asgs) \<Rightarrow>
             (\<lparr>success = (length asgs > 0),
               message = DronesOtimizadosCapacidade (length asgs),
               assignments = Some asgs,
               strategy = Some ''capacity_optimization''\<rparr>, w'))"

section \<open>OptimizationAlgorithm: clustering and distance optimisation\<close>

text \<open>
  The search for the nearest centroid: index 0 first, then a strictly smaller distance
  moves the choice to a later index.
\<close>

fun nearestCentroidLoop :: "point \<Rightarrow> point list \<Rightarrow> nat \<Rightarrow> nat \<times> real \<Rightarrow> nat \<times> real" where
  "nearestCentroidLoop loc [] i best = best"
| "nearestCentroidLoop loc (c # cs) i (nearestCentroid, nearestDistance) =
     (let distance = calculateDistance loc c
      in if distance < nearestDistance
         then nearestCentroidLoop loc cs (i + 1) (i, distance)
         else nearestCentroidLoop loc cs (i + 1) (nearestCentroid, nearestDistance))"

text \<open>Called on a non-empty list of centroids only.\<close>

definition nearestCentroid :: "point \<Rightarrow> point list \<Rightarrow> nat" where
  "nearestCentroid loc centroids =
     fst (nearestCentroidLoop loc (tl centroids) 1 (0, calculateDistance loc (hd centroids)))"

text \<open>\<open>clusters[i].push(order)\<close>.\<close>

definition pushToCluster :: "nat list list \<Rightarrow> nat \<Rightarrow> nat \<Rightarrow> nat list list" where
  "pushToCluster clusters i r = clusters[i := clusters ! i @ [r]]"

text \<open>
  The assignment step: from \<open>k\<close> empty clusters, each order in turn is pushed on the
  cluster of its nearest centroid.
\<close>

definition assignToCentroids :: "world \<Rightarrow> nat list \<Rightarrow> point list \<Rightarrow> nat list list" where
  "assignToCentroids w orders centroids =
     foldl (\<lambda>clusters r.
              pushToCluster clusters (nearestCentroid (location (orders_of w r)) centroids) r)
       (replicate (length centroids) []) orders"

text \<open>The centroid update: the mean of a non-empty cluster, the old centroid otherwise.\<close>

definition updateCentroid :: "world \<Rightarrow> nat list \<Rightarrow> point \<Rightarrow> point" where
  "updateCentroid w cluster centroid =
     (if length cluster > 0
      then \<lparr>px = foldl (\<lambda>sum r. sum + px (location (orders_of w r))) 0 cluster
                   / real (length cluster),
            py = foldl (\<lambda>sum r. sum + py (location (orders_of w r))) 0 cluster
                   / real (length cluster)\<rparr>
      else centroid)"

definition kmeansIteration :: "world \<Rightarrow> nat list \<Rightarrow> point list \<Rightarrow> point list" where
  "kmeansIteration w orders centroids =
     map (\<lambda>(cluster, centroid). updateCentroid w cluster centroid)
       (zip (assignToCentroids w orders centroids) centroids)"

text \<open>
  The initial centroids. \<open>Math.random\<close> is ambient in the source; the model takes the
  sequence of its results as the parameter \<open>rnd\<close> (draw \<open>i\<close> is \<open>rnd i\<close>). A draw in
  \<open>[0, 1)\<close> gives an index in range; reading \<open>location\<close> of an absent element raises.
\<close>

definition randomOrder :: "real \<Rightarrow> nat list \<Rightarrow> error + nat" where
  "randomOrder u orders =
     (let i = \<lfloor>u * real (length orders)\<rfloor>
      in if 0 \<le> i \<and> i < int (length orders) then Inr (orders ! nat i) else Inl TypeError)"

fun initCentroids :: "(nat \<Rightarrow> real) \<Rightarrow> world \<Rightarrow> nat list \<Rightarrow> nat \<Rightarrow> nat \<Rightarrow> error + point list" where
  "initCentroids rnd w orders i 0 = Inr []"
| "initCentroids rnd w orders i (Suc n) =
     (case randomOrder (rnd i) orders of
        Inl e \<Rightarrow> Inl e
      | Inr r \<Rightarrow> (case initCentroids rnd w orders (i + 1) n of
                   Inl e \<Rightarrow> Inl e
                 | Inr cs \<Rightarrow> Inr (location (orders_of w r) # cs)))"

text \<open>
  \<open>clusterOrdersByDistance\<close>. With \<open>k = 0\<close> and at least one order, \<open>centroids[0]\<close> is
  absent and the distance to it raises.
\<close>

definition clusterOrdersByDistance :: "(nat \<Rightarrow> real) \<Rightarrow> world \<Rightarrow> nat list \<Rightarrow> nat
    \<Rightarrow> error + nat list list" where
  "clusterOrdersByDistance rnd w orders k =
     (if length orders \<le> k then Inr (map (\<lambda>r. [r]) orders)
      else (case initCentroids rnd w orders 0 k of
              Inl e \<Rightarrow> Inl e
            | Inr centroids \<Rightarrow>
                if centroids = [] then Inl TypeError
                else (let centroids3 = ((kmeansIteration w orders) ^^ 3) centroids;
                          finalClusters = assignToCentroids w orders centroids3
                      in Inr (filter (\<lambda>cluster. length cluster > 0) finalClusters))))"

text \<open>\<open>calculateClusterDistance\<close>: base, the orders in turn, base.\<close>

fun consecutiveDistance :: "'a point_scheme list \<Rightarrow> real \<Rightarrow> real" where
  "consecutiveDistance (p # q # ps) acc =
     consecutiveDistance (q # ps) (acc + calculateDistance p q)"
| "consecutiveDistance ps acc = acc"

definition calculateClusterDistance :: "world \<Rightarrow> nat list \<Rightarrow> real" where
  "calculateClusterDistance w orders =
     (if length orders \<le> 1 then 0
      else (let basePosition = \<lparr>px = 10, py = 10\<rparr>;
                locs = map (\<lambda>r. location (orders_of w r)) orders
            in consecutiveDistance locs (0 + calculateDistance basePosition (hd locs))
               + calculateDistance (last locs) basePosition))"

text \<open>The loop over one cluster: \<open>canCarryOrder(order) && assignOrder(order)\<close>.\<close>

fun assignCluster :: "nat \<Rightarrow> nat list \<Rightarrow> world \<times> nat list \<Rightarrow> world \<times> nat list" where
  "assignCluster d [] st = st"
| "assignCluster d (r # rs) (w, assignedOrders') =
     (if canCarryOrder (drones_of w d) (orders_of w r)
      then (case assignOrder w d r of
              (True, w') \<Rightarrow> assignCluster d rs (w', assignedOrders' @ [r])
            | (False, _) \<Rightarrow> assignCluster d rs (w, assignedOrders'))
      else assignCluster d rs (w, assignedOrders'))"

text \<open>The loop over \<open>i < min(clusters.length, drones.length)\<close>: cluster \<open>i\<close> with drone \<open>i\<close>.\<close>

fun distanceLoop :: "(nat list \<times> nat) list \<Rightarrow> world \<times> assignment list
    \<Rightarrow> world \<times> assignment list" where
  "distanceLoop [] st = st"
| "distanceLoop ((cluster, d) # rest) (w, asgs) =
     (let sorted = js_sort (\<lambda>a b. priorityScores3 (priority (orders_of w b))
                               - priorityScores3 (priority (orders_of w a))) cluster
      in case assignCluster d sorted (w, []) of
           (w', assignedOrders') \<Rightarrow>
             distanceLoop rest
               (w',
                (if length assignedOrders' > 0
                 then asgs @ [\<lparr>a_drone = drone_id (drones_of w' d),
                               a_orders = map (\<lambda>r. order_id (orders_of w' r)) assignedOrders',
                               a_totalWeight = None,
                               a_clusterDistance =
                                 Some (calculateClusterDistance w' assignedOrders')\<rparr>]
                 else asgs)))"

definition distanceOptimization :: "(nat \<Rightarrow> real) \<Rightarrow> world \<Rightarrow> nat list \<Rightarrow> nat list
    \<Rightarrow> error + result \<times> world" where
  "distanceOptimization rnd w orders drones =
     (case clusterOrdersByDistance rnd w orders (length drones) of
        Inl e \<Rightarrow> Inl e
      | Inr clusters \<Rightarrow>
          (case distanceLoop (zip clusters drones) (w, []) of
             (w', asgs) \<Rightarrow>
               Inr (\<lparr>success = (length asgs > 0),
                     message = DronesOtimizadosDistancia (length asgs),
                     assignments = Some asgs,
                     strategy = Some ''distance_optimization''\<rparr>, w')))"

section \<open>OptimizationAlgorithm: entry points\<close>

text \<open>\<open>applyOptimizationStrategy\<close>: the \<open>switch\<close> on the strategy name.\<close>

definition applyOptimizationStrategy :: "int \<Rightarrow> (nat \<Rightarrow> real) \<Rightarrow> world \<Rightarrow> nat list \<Rightarrow> nat list
    \<Rightarrow> string \<Rightarrow> error + result \<times> world" where
  "applyOptimizationStrategy now rnd w orders drones strat =
     (if strat = ''priority_first'' then Inr (priorityFirstOptimization now w orders drones)
      else if strat = ''capacity_optimization'' then Inr (capacityOptimization now w orders drones)
      else if strat = ''distance_optimization'' then distanceOptimization rnd w orders drones
      else Inr (balancedOptimization now w orders drones))"

text \<open>\<open>calculateAverageDistanceFromBase\<close>.\<close>

definition calculateAverageDistanceFromBase :: "world \<Rightarrow> nat list \<Rightarrow> real" where
  "calculateAverageDistanceFromBase w orders =
     (if length orders = 0 then 0
      else (let basePosition = \<lparr>px = 10, py = 10\<rparr>;
                totalDistance = foldl (\<lambda>sum r. sum
                    + calculateDistance (location (orders_of w r)) basePosition) 0 orders
            in totalDistance / real (length orders)))"

text \<open>
  \<open>analyzeDeliveryScenario\<close>. The two quotients are NaN or infinite when the divisor
  is 0.
\<close>

record analysis =
  orderCount :: nat
  droneCount :: nat
  capacityUtilization :: jsnum
  avgDistance :: real
  priorityRatio :: jsnum
  isHighVolume :: bool
  isHighPriority :: bool

definition analyzeDeliveryScenario :: "world \<Rightarrow> nat list \<Rightarrow> nat list \<Rightarrow> analysis" where
  "analyzeDeliveryScenario w orders drones =
     (let totalWeight = foldl (\<lambda>sum r. sum + weight (orders_of w r)) 0 orders;
          totalCapacity = foldl (\<lambda>sum d. sum + capacity (drones_of w d)) 0 drones;
          avgOrderDistance = calculateAverageDistanceFromBase w orders;
          highPriorityCount = length (filter (\<lambda>r. priority (orders_of w r) = Alta) orders)
      in \<lparr>orderCount = length orders,
          droneCount = length drones,
          capacityUtilization = jdiv totalWeight totalCapacity,
          avgDistance = avgOrderDistance,
          priorityRatio = jdiv (real highPriorityCount) (real (length orders)),
          isHighVolume = (length orders > length drones * 3),
          isHighPriority = (real highPriorityCount > real (length orders) * 0.5)\<rparr>)"

definition selectOptimizationStrategy :: "analysis \<Rightarrow> string" where
  "selectOptimizationStrategy a =
     (if isHighPriority a then ''priority_first''
      else if isHighVolume a then ''capacity_optimization''
      else if avgDistance a > 10 then ''distance_optimization''
      else ''balanced_optimization'')"

text \<open>\<open>optimizeDeliveries\<close>.\<close>

definition optimizeDeliveries :: "int \<Rightarrow> (nat \<Rightarrow> real) \<Rightarrow> world \<Rightarrow> nat list \<Rightarrow> nat list
    \<Rightarrow> error + result \<times> world" where
  "optimizeDeliveries now rnd w orders drones =
     (if length orders = 0 \<or> length drones = 0
      then Inr (\<lparr>success = False, message = SemPedidosOuDrones,
                 assignments = None, strategy = None\<rparr>, w)
      else (let a = analyzeDeliveryScenario w orders drones;
                strat = selectOptimizationStrategy a
            in applyOptimizationStrategy now rnd w orders drones strat))"

section \<open>Drone: route construction\<close>

text \<open>
  The inner loop of \<open>Drone.optimizeRoute\<close>: the candidate at index \<open>i\<close> replaces the
  current choice when its distance times its priority weight is below
  \<open>nearestDistance\<close>, which then becomes the candidate's distance.
\<close>

fun nearestOrderLoop :: "world \<Rightarrow> point \<Rightarrow> nat list \<Rightarrow> nat \<Rightarrow> nat \<times> real \<Rightarrow> nat \<times> real" where
  "nearestOrderLoop w cur [] i best = best"
| "nearestOrderLoop w cur (r # rs) i (nearestIndex, nearestDistance) =
     (let distance = calculateDistance cur (location (orders_of w r));
          priorityWeight = (if priority (orders_of w r) = Alta then 0.7
                            else if priority (orders_of w r) = Media then 0.85 else 1.0)
      in if distance * priorityWeight < nearestDistance
         then nearestOrderLoop w cur rs (i + 1) (i, distance)
         else nearestOrderLoop w cur rs (i + 1) (nearestIndex, nearestDistance))"

text \<open>Called on a non-empty \<open>unvisited\<close> only: the search starts from index 0.\<close>

definition nearestIndexOf :: "world \<Rightarrow> point \<Rightarrow> nat list \<Rightarrow> nat" where
  "nearestIndexOf w cur unvisited =
     fst (nearestOrderLoop w cur (tl unvisited) 1
            (0, calculateDistance cur (location (orders_of w (hd unvisited)))))"

lemma nearestOrderLoop_bound:
  "ni < i \<Longrightarrow> fst (nearestOrderLoop w cur rs i (ni, nd)) < i + length rs"
proof (induction rs arbitrary: i ni nd)
  case Nil
  then show ?case by simp
next
  case (Cons r rs)
  have "fst (nearestOrderLoop w cur rs (i + 1) (i, x)) < (i + 1) + length rs" for x
    by (rule Cons.IH) simp
  moreover have "fst (nearestOrderLoop w cur rs (i + 1) (ni, nd)) < (i + 1) + length rs"
    by (rule Cons.IH) (use Cons.prems in simp)
  ultimately show ?case by (simp add: Let_def)
qed

lemma nearestIndexOf_bound:
  "unvisited \<noteq> [] \<Longrightarrow> nearestIndexOf w cur unvisited < length unvisited"
  using nearestOrderLoop_bound [of 0 1 w cur "tl unvisited"]
  by (cases unvisited) (simp_all add: nearestIndexOf_def)

text \<open>
  The \<open>while\<close> loop of \<open>Drone.optimizeRoute\<close>: \<open>splice(nearestIndex, 1)\<close> takes the
  chosen order out of \<open>unvisited\<close>, and its location is pushed on the route.
\<close>

function routeLoop :: "world \<Rightarrow> point \<Rightarrow> nat list \<Rightarrow> waypoint list \<Rightarrow> waypoint list" where
  "routeLoop w currentPosition unvisited route =
     (if length unvisited > 0
      then (let nearestIndex = nearestIndexOf w currentPosition unvisited;
                nearestOrder = unvisited ! nearestIndex;
                loc = location (orders_of w nearestOrder)
            in routeLoop w loc
                 (take nearestIndex unvisited @ drop (Suc nearestIndex) unvisited)
                 (route @ [\<lparr>px = px loc, py = py loc,
                            wtype = Delivery, worder = Some nearestOrder\<rparr>]))
      else route)"
  by pat_completeness auto
termination
proof (relation "measure (\<lambda>(w, cur, unvisited, route). length unvisited)")
  show "wf (measure (\<lambda>(w, cur, unvisited, route). length unvisited))" by simp
next
  fix w :: world and currentPosition :: point and unvisited :: "nat list"
    and route :: "waypoint list" and x xa xb
  assume "0 < length unvisited" "x = nearestIndexOf w currentPosition unvisited"
  then have "x < length unvisited"
    using nearestIndexOf_bound by simp
  then show "((w, xb, take x unvisited @ drop (Suc x) unvisited,
               route @ [\<lparr>px = px xb, py = py xb, wtype = Delivery, worder = Some xa\<rparr>]),
              w, currentPosition, unvisited, route)
             \<in> measure (\<lambda>(w, cur, unvisited, route). length unvisited)"
    by simp
qed

declare routeLoop.simps [simp del]

text \<open>
  \<open>Drone.optimizeRoute\<close> on drone reference \<open>d\<close>: the route, and the store after the
  call (\<open>sort\<close> reorders \<open>assignedOrders\<close> in place, and \<open>currentRoute\<close> is set).
\<close>

definition optimizeRoute :: "world \<Rightarrow> nat \<Rightarrow> waypoint list \<times> world" where
  "optimizeRoute w d =
     (let this = drones_of w d
      in if length (assignedOrders this) = 0 then ([], w)
         else (let sortedOrders = js_sort (\<lambda>a b. priorityScores3 (priority (orders_of w b))
                                              - priorityScores3 (priority (orders_of w a)))
                                    (assignedOrders this);
                   base = \<lparr>px = px (basePosition this), py = py (basePosition this),
                           wtype = Base, worder = None\<rparr>;
                   route = routeLoop w (basePosition this) sortedOrders [base] @ [base]
               in (route,
                   w\<lparr>drones_of := (drones_of w)
                        (d := this\<lparr>assignedOrders := sortedOrders,
                                  currentRoute := route\<rparr>)\<rparr>)))"

text \<open>
  \<open>calculateRouteDistance\<close>, of \<open>Drone\<close> on its \<open>currentRoute\<close> and of
  \<open>OptimizationAlgorithm\<close> on a route: the sum of the consecutive legs.
\<close>

definition calculateRouteDistance :: "'a point_scheme list \<Rightarrow> real" where
  "calculateRouteDistance route =
     (if length route < 2 then 0 else consecutiveDistance route 0)"

section \<open>OptimizationAlgorithm: 2-opt\<close>

text \<open>\<open>reverseRouteSegment\<close>: swap the two ends and move inwards.\<close>

function reverseRouteSegment :: "'a list \<Rightarrow> nat \<Rightarrow> nat \<Rightarrow> 'a list" where
  "reverseRouteSegment route start finish =
     (if start < finish
      then reverseRouteSegment (route[start := route ! finish, finish := route ! start])
             (start + 1) (finish - 1)
      else route)"
  by pat_completeness auto
termination
  by (relation "measure (\<lambda>(route, start, finish). finish - start)") auto

declare reverseRouteSegment.simps [simp del]

text \<open>The index pairs of the two nested \<open>for\<close> loops, in the order they are visited.\<close>

definition twoOptPairs :: "nat \<Rightarrow> (nat \<times> nat) list" where
  "twoOptPairs n = concat (map (\<lambda>i. map (\<lambda>j. (i, j)) [i + 1 ..< n - 1]) [1 ..< n - 2])"

text \<open>The body of the inner loop: try the reversal of the segment of \<open>route\<close>.\<close>

definition twoOptStep :: "'a point_scheme list \<Rightarrow> nat \<times> nat
    \<Rightarrow> 'a point_scheme list \<times> real \<times> bool \<Rightarrow> 'a point_scheme list \<times> real \<times> bool" where
  "twoOptStep route ij best =
     (case best of (bestRoute, bestDistance, improved) \<Rightarrow>
        (let newRoute = reverseRouteSegment route (fst ij) (snd ij);
             newDistance = calculateRouteDistance newRoute
         in if newDistance < bestDistance then (newRoute, newDistance, True)
            else (bestRoute, bestDistance, improved)))"

text \<open>One pass of the \<open>while\<close> loop, from \<open>improved = false\<close>.\<close>

definition twoOptPass :: "'a point_scheme list \<Rightarrow> 'a point_scheme list \<Rightarrow> real
    \<Rightarrow> 'a point_scheme list \<times> real \<times> bool" where
  "twoOptPass route bestRoute bestDistance =
     fold (twoOptStep route) (twoOptPairs (length route)) (bestRoute, bestDistance, False)"

lemma length_reverseRouteSegment [simp]:
  "length (reverseRouteSegment route start finish) = length route"
  by (induction route start finish rule: reverseRouteSegment.induct)
     (subst reverseRouteSegment.simps, simp)

lemma set_reverseRouteSegment:
  "finish < length route \<Longrightarrow> set (reverseRouteSegment route start finish) = set route"
proof (induction route start finish rule: reverseRouteSegment.induct)
  case (1 route start finish)
  show ?case
  proof (cases "start < finish")
    case True
    let ?r = "route[start := route ! finish, finish := route ! start]"
    have "set ?r = set route"
      using True "1.prems" by (simp add: set_swap)
    moreover have "set (reverseRouteSegment ?r (start + 1) (finish - 1)) = set ?r"
      using True "1.prems" by (intro "1.IH") simp_all
    ultimately show ?thesis
      using True by (subst reverseRouteSegment.simps) simp
  next
    case False
    then show ?thesis by (subst reverseRouteSegment.simps) simp
  qed
qed

lemma twoOptPairs_bound:
  "(i, j) \<in> set (twoOptPairs n) \<Longrightarrow> 1 \<le> i \<and> i < j \<and> j < n - 1"
  by (auto simp: twoOptPairs_def)

text \<open>The lists over the points of a route, of its length: the rearrangements are among them.\<close>

definition routesLike :: "'a point_scheme list \<Rightarrow> 'a point_scheme list set" where
  "routesLike route = {p. set p \<subseteq> set route \<and> length p = length route}"

lemma finite_routesLike: "finite (routesLike route)"
  unfolding routesLike_def by (rule finite_lists_length_eq) simp

lemma twoOptStep_better:
  "calculateRouteDistance (reverseRouteSegment route (fst ij) (snd ij)) < bd \<Longrightarrow>
   twoOptStep route ij (br, bd, imp) =
     (reverseRouteSegment route (fst ij) (snd ij),
      calculateRouteDistance (reverseRouteSegment route (fst ij) (snd ij)), True)"
  by (simp add: twoOptStep_def Let_def)

lemma twoOptStep_worse:
  "\<not> calculateRouteDistance (reverseRouteSegment route (fst ij) (snd ij)) < bd \<Longrightarrow>
   twoOptStep route ij (br, bd, imp) = (br, bd, imp)"
  by (simp add: twoOptStep_def Let_def)

lemma twoOptStep_fold:
  assumes "\<forall>ij \<in> set ps. snd ij < length route"
    and "fold (twoOptStep route) ps (br, bd, imp) = (br', bd', imp')"
  shows "((br', bd', imp') = (br, bd, imp) \<or>
          (imp' \<and> bd' < bd \<and> bd' = calculateRouteDistance br' \<and> br' \<in> routesLike route))
         \<and> (\<forall>ij \<in> set ps. \<not> calculateRouteDistance (reverseRouteSegment route (fst ij) (snd ij)) < bd')"
  using assms
proof (induction ps arbitrary: br bd imp)
  case Nil
  then show ?case by simp
next
  case (Cons ij ps)
  let ?nr = "reverseRouteSegment route (fst ij) (snd ij)"
  let ?nd = "calculateRouteDistance ?nr"
  have nr: "?nr \<in> routesLike route"
    using Cons.prems(1) by (simp add: routesLike_def set_reverseRouteSegment)
  show ?case
  proof (cases "?nd < bd")
    case True
    then have f: "fold (twoOptStep route) ps (?nr, ?nd, True) = (br', bd', imp')"
      using Cons.prems(2) by (simp add: twoOptStep_better)
    from Cons.IH [OF _ f] Cons.prems(1)
    have ih: "((br', bd', imp') = (?nr, ?nd, True) \<or>
          (imp' \<and> bd' < ?nd \<and> bd' = calculateRouteDistance br' \<and> br' \<in> routesLike route))
         \<and> (\<forall>ij \<in> set ps. \<not> calculateRouteDistance (reverseRouteSegment route (fst ij) (snd ij)) < bd')"
      by simp
    with True nr show ?thesis by auto
  next
    case False
    then have f: "fold (twoOptStep route) ps (br, bd, imp) = (br', bd', imp')"
      using Cons.prems(2) by (simp add: twoOptStep_worse)
    from Cons.IH [OF _ f] Cons.prems(1)
    have ih: "((br', bd', imp') = (br, bd, imp) \<or>
          (imp' \<and> bd' < bd \<and> bd' = calculateRouteDistance br' \<and> br' \<in> routesLike route))
         \<and> (\<forall>ij \<in> set ps. \<not> calculateRouteDistance (reverseRouteSegment route (fst ij) (snd ij)) < bd')"
      by simp
    with False show ?thesis by auto
  qed
qed

lemma twoOptPass_cases:
  assumes "twoOptPass route br bd = (br', bd', imp')"
  shows "((br', bd', imp') = (br, bd, False) \<or>
          (imp' \<and> bd' < bd \<and> bd' = calculateRouteDistance br' \<and> br' \<in> routesLike route))
         \<and> (\<forall>ij \<in> set (twoOptPairs (length route)).
               \<not> calculateRouteDistance (reverseRouteSegment route (fst ij) (snd ij)) < bd')"
proof (rule twoOptStep_fold)
  show "\<forall>ij \<in> set (twoOptPairs (length route)). snd ij < length route"
    using twoOptPairs_bound [of _ _ "length route"] by fastforce
  show "fold (twoOptStep route) (twoOptPairs (length route)) (br, bd, False) = (br', bd', imp')"
    using assms by (simp add: twoOptPass_def)
qed


text \<open>
  The \<open>while (improved)\<close> loop of \<open>optimizeRouteWith2Opt\<close>: a pass, then \<open>route = bestRoute\<close>.
  It ends because each improving pass strictly lowers \<open>bestDistance\<close> to the length of a
  rearrangement of the route, and there are finitely many of those.
\<close>

function twoOptLoop :: "'a point_scheme list \<Rightarrow> 'a point_scheme list \<Rightarrow> real
    \<Rightarrow> 'a point_scheme list" where
  "twoOptLoop route bestRoute bestDistance =
     (case twoOptPass route bestRoute bestDistance of
        (bestRoute', bestDistance', improved) \<Rightarrow>
          if improved then twoOptLoop bestRoute' bestRoute' bestDistance' else bestRoute')"
  by pat_completeness auto
termination
proof (relation "measure (\<lambda>(route, bestRoute, bestDistance).
         card {p \<in> routesLike route. calculateRouteDistance p < bestDistance})")
  show "wf (measure (\<lambda>(route, bestRoute, bestDistance).
         card {p \<in> routesLike route. calculateRouteDistance p < bestDistance}))"
    by simp
next
  fix route bestRoute :: "'a point_scheme list" and bestDistance :: real
    and x br' y bd' imp'
  assume a: "(br', y) = twoOptPass route bestRoute bestDistance" "(bd', imp') = y" "imp'"
  then have pass: "twoOptPass route bestRoute bestDistance = (br', bd', imp')"
    by simp
  show "((br', br', bd'), route, bestRoute, bestDistance)
          \<in> measure (\<lambda>(route, bestRoute, bestDistance).
               card {p \<in> routesLike route. calculateRouteDistance p < bestDistance})"
  proof -
    from twoOptPass_cases [OF pass] a(3)
    have less: "bd' < bestDistance" and eq: "bd' = calculateRouteDistance br'"
      and mem: "br' \<in> routesLike route"
      by auto
    let ?new = "{p \<in> routesLike br'. calculateRouteDistance p < bd'}"
    let ?old = "{p \<in> routesLike route. calculateRouteDistance p < bestDistance}"
    have sub: "routesLike br' \<subseteq> routesLike route"
      using mem by (auto simp: routesLike_def)
    have "?new \<subseteq> ?old"
      using sub less by auto
    moreover have "br' \<in> ?old" "br' \<notin> ?new"
      using mem less eq by auto
    ultimately have "?new \<subset> ?old"
      by blast
    moreover have "finite ?old"
      by (rule finite_subset [OF _ finite_routesLike [of route]]) auto
    ultimately have "card ?new < card ?old"
      by (rule psubset_card_mono [rotated])
    then show ?thesis by simp
  qed
qed

declare twoOptLoop.simps [simp del]

text \<open>\<open>optimizeRouteWith2Opt\<close>.\<close>

definition optimizeRouteWith2Opt :: "'a point_scheme list \<Rightarrow> 'a point_scheme list" where
  "optimizeRouteWith2Opt route =
     (if length route < 4 then route
      else twoOptLoop route route (calculateRouteDistance route))"

section \<open>Constructors and sample stores\<close>

text \<open>The constructor of \<open>Drone\<close>: at the base, empty, fully charged and idle.\<close>

definition newDrone :: "nat \<Rightarrow> real \<Rightarrow> real \<Rightarrow> drone" where
  "newDrone i cap rng =
     \<lparr>drone_id = i, capacity = cap, range_km = rng, currentLoad = 0, battery = 100,
      position = \<lparr>px = 10, py = 10\<rparr>, dstatus = Idle, assignedOrders = [],
      currentRoute = [], totalDistance = 0, deliveriesCount = 0,
      basePosition = \<lparr>px = 10, py = 10\<rparr>, currentRouteIndex = 0, speed = 0.5\<rparr>"

text \<open>The constructor of \<open>Order\<close>, created at clock reading \<open>t\<close>.\<close>

definition newOrder :: "nat \<Rightarrow> point \<Rightarrow> real \<Rightarrow> priority \<Rightarrow> int \<Rightarrow> order" where
  "newOrder i clientLocation wt prio t =
     \<lparr>order_id = i, location = clientLocation, weight = wt, priority = prio,
      status = Pending, createdAt = t, assignedDrone = None, deliveredAt = None,
      estimatedDeliveryTime = None\<rparr>"

text \<open>
  A store for the examples: every drone reference \<open>d\<close> is a new drone \<open>d\<close> with
  capacity 5 and range 10; order 0 weighs 2 at \<open>(12, 10)\<close>, order 1 weighs 6 at the same
  place, and every other order weighs 1 at the base.
\<close>

definition sampleWorld :: world where
  "sampleWorld =
     \<lparr>orders_of = (\<lambda>r. if r = 0 then newOrder 0 \<lparr>px = 12, py = 10\<rparr> 2 Alta 0
                       else if r = 1 then newOrder 1 \<lparr>px = 12, py = 10\<rparr> 6 Alta 0
                       else newOrder r \<lparr>px = 10, py = 10\<rparr> 1 Baixa 0),
      drones_of = (\<lambda>d. newDrone d 5 10)\<rparr>"

text \<open>
  A store for the route example: one drone holding orders 0 and 1, both of high
  priority, order 0 at distance 1 from the base and order 1 at distance 1.2.
\<close>

definition routeWorld :: world where
  "routeWorld =
     \<lparr>orders_of = (\<lambda>r. if r = 0
                       then (newOrder 0 \<lparr>px = 11, py = 10\<rparr> 1 Alta 0)
                              \<lparr>status := Assigned, assignedDrone := Some 0\<rparr>
                       else (newOrder 1 \<lparr>px = 10, py = 56 / 5\<rparr> 1 Alta 0)
                              \<lparr>status := Assigned, assignedDrone := Some 0\<rparr>),
      drones_of = (\<lambda>d. (newDrone 0 5 10)\<lparr>assignedOrders := [0, 1], currentLoad := 2\<rparr>)\<rparr>"

text \<open>
  A store for the range example: one new drone (capacity 5, range 10) and two pending
  orders of weight 1, five units north and five units south of the base; then the store
  after order 0, and after order 1, has been assigned to the drone.
\<close>

definition rangeWorld :: world where
  "rangeWorld =
     \<lparr>orders_of = (\<lambda>r. if r = 0 then newOrder 0 \<lparr>px = 10, py = 15\<rparr> 1 Baixa 0
                       else newOrder 1 \<lparr>px = 10, py = 5\<rparr> 1 Baixa 0),
      drones_of = (\<lambda>d. newDrone 0 5 10)\<rparr>"

definition rangeWorld1 :: world where
  "rangeWorld1 = snd (assignOrder rangeWorld 0 0)"

definition rangeWorld2 :: world where
  "rangeWorld2 = snd (assignOrder rangeWorld1 0 1)"

text \<open>
  A store for the clustering examples: order \<open>r\<close> lies at \<open>(r, 0)\<close>. Three sequences
  of draws: all 0; 0 then 1/2; and 0, 0, then 1/2.
\<close>

definition lineWorld :: world where
  "lineWorld =
     \<lparr>orders_of = (\<lambda>r. newOrder r \<lparr>px = real r, py = 0\<rparr> 1 Baixa 0),
      drones_of = (\<lambda>d. newDrone d 5 10)\<rparr>"

definition drawsA :: "nat \<Rightarrow> real" where
  "drawsA i = 0"

definition drawsB :: "nat \<Rightarrow> real" where
  "drawsB i = (if i = 0 then 0 else 1 / 2)"

definition drawsC :: "nat \<Rightarrow> real" where
  "drawsC i = (if i < 2 then 0 else 1 / 2)"

section \<open>Properties of the store\<close>

text \<open>
  The weight a drone holds, and the load invariant of a drone: \<open>currentLoad\<close> is the sum
  of the weights of \<open>assignedOrders\<close> and does not exceed \<open>capacity\<close>.
\<close>

definition assignedWeight :: "world \<Rightarrow> nat \<Rightarrow> real" where
  "assignedWeight w d =
     sum_list (map (\<lambda>r. weight (orders_of w r)) (assignedOrders (drones_of w d)))"

definition loadInvariant :: "world \<Rightarrow> nat \<Rightarrow> bool" where
  "loadInvariant w d =
     (currentLoad (drones_of w d) = assignedWeight w d \<and>
      assignedWeight w d \<le> capacity (drones_of w d))"

text \<open>A property of the store that no call of \<open>assignOrder\<close> breaks.\<close>

definition assignStable :: "(world \<Rightarrow> bool) \<Rightarrow> bool" where
  "assignStable P = (\<forall>w d r. P w \<longrightarrow> P (snd (assignOrder w d r)))"

text \<open>
  An order is unheld when no drone of \<open>D\<close> has it in \<open>assignedOrders\<close>. It is singly
  assigned when exactly one drone of \<open>D\<close> has it, once, and \<open>assignedDrone\<close> is the id of
  that drone. An order is in order when it is pending and unheld, or assigned and singly
  assigned.
\<close>

definition unheld :: "world \<Rightarrow> nat set \<Rightarrow> nat \<Rightarrow> bool" where
  "unheld w D r = (\<forall>d \<in> D. r \<notin> set (assignedOrders (drones_of w d)))"

definition singlyAssigned :: "world \<Rightarrow> nat set \<Rightarrow> nat \<Rightarrow> bool" where
  "singlyAssigned w D r =
     (\<exists>d \<in> D. count_list (assignedOrders (drones_of w d)) r = 1 \<and>
        assignedDrone (orders_of w r) = Some (drone_id (drones_of w d)) \<and>
        (\<forall>d' \<in> D. d' \<noteq> d \<longrightarrow> r \<notin> set (assignedOrders (drones_of w d'))))"

definition orderOK :: "world \<Rightarrow> nat set \<Rightarrow> nat \<Rightarrow> bool" where
  "orderOK w D r =
     ((status (orders_of w r) = Pending \<and> unheld w D r) \<or>
      (status (orders_of w r) = Assigned \<and> singlyAssigned w D r))"

text \<open>
  The local list \<open>pendingOrders\<close> of the capacity optimisation is sound when it has no
  duplicate and holds pending orders of \<open>R\<close> only.
\<close>

definition pendingList :: "world \<Rightarrow> nat set \<Rightarrow> nat list \<Rightarrow> bool" where
  "pendingList w R pend =
     (distinct pend \<and> set pend \<subseteq> R \<and> (\<forall>r \<in> set pend. status (orders_of w r) = Pending))"

section \<open>Feasibility predicate\<close>

text \<open>The Euclidean distance between two points, as the specification names it.\<close>

definition euclid :: "point \<Rightarrow> point \<Rightarrow> real" where
  "euclid p q = sqrt ((px p - px q)\<^sup>2 + (py p - py q)\<^sup>2)"

lemma calculateDistance_euclid: "calculateDistance p q = euclid p q"
  by (simp add: calculateDistance_def euclid_def power2_eq_square Let_def)
     (simp add: algebra_simps)

text \<open>
  C3. \<open>canCarryOrder\<close> holds exactly when the new load fits the capacity, the round trip
  (the Euclidean distance from the drone's position to the order plus that from the
  order to the base) fits the range, and the battery covers \<open>min 100 (round trip * 5)\<close>.
  It is a predicate on the two objects: it returns a boolean and no store.
\<close>

theorem canCarryOrder_iff:
  "canCarryOrder v ord \<longleftrightarrow>
     (currentLoad v + weight ord \<le> capacity v \<and>
      euclid (position v) (location ord) + euclid (location ord) (basePosition v)
        \<le> range_km v \<and>
      battery v \<ge> min 100 ((euclid (position v) (location ord)
        + euclid (location ord) (basePosition v)) * 5))"
  unfolding canCarryOrder_def calculateBatteryNeeded_def Let_def calculateDistance_euclid
  by (rule refl)

section \<open>Route improvement\<close>

lemma twoOptLoop_result:
  "bestDistance = calculateRouteDistance bestRoute \<Longrightarrow> route = bestRoute \<Longrightarrow>
   length (twoOptLoop route bestRoute bestDistance) = length route \<and>
   calculateRouteDistance (twoOptLoop route bestRoute bestDistance) \<le> bestDistance \<and>
   twoOptPass (twoOptLoop route bestRoute bestDistance) (twoOptLoop route bestRoute bestDistance)
       (calculateRouteDistance (twoOptLoop route bestRoute bestDistance))
     = (twoOptLoop route bestRoute bestDistance,
        calculateRouteDistance (twoOptLoop route bestRoute bestDistance), False)"
proof (induction route bestRoute bestDistance rule: twoOptLoop.induct)
  case (1 route bestRoute bestDistance)
  obtain br' bd' imp' where pass: "twoOptPass route bestRoute bestDistance = (br', bd', imp')"
    by (cases "twoOptPass route bestRoute bestDistance") auto
  note cases = twoOptPass_cases [OF pass]
  show ?case
  proof (cases imp')
    case True
    with cases have less: "bd' < bestDistance" and eq: "bd' = calculateRouteDistance br'"
      and mem: "br' \<in> routesLike route"
      by auto
    have unfold: "twoOptLoop route bestRoute bestDistance = twoOptLoop br' br' bd'"
      using pass True by (subst twoOptLoop.simps) simp
    have ih: "length (twoOptLoop br' br' bd') = length br' \<and>
        calculateRouteDistance (twoOptLoop br' br' bd') \<le> bd' \<and>
        twoOptPass (twoOptLoop br' br' bd') (twoOptLoop br' br' bd')
            (calculateRouteDistance (twoOptLoop br' br' bd'))
          = (twoOptLoop br' br' bd', calculateRouteDistance (twoOptLoop br' br' bd'), False)"
      using "1.IH" [OF pass [symmetric] refl True eq refl] .
    from mem have "length br' = length route"
      by (simp add: routesLike_def)
    with ih less show ?thesis
      unfolding unfold by simp
  next
    case False
    with cases have same: "br' = bestRoute" "bd' = bestDistance"
      by auto
    have unfold: "twoOptLoop route bestRoute bestDistance = bestRoute"
      using pass False same by (subst twoOptLoop.simps) simp
    show ?thesis
      unfolding unfold using pass False same "1.prems" by simp
  qed
qed

text \<open>
  C4. The 2-opt improver never lengthens a path, and applying it to its own result
  changes nothing.
\<close>

theorem two_opt_non_worsening_idempotent:
  "calculateRouteDistance (optimizeRouteWith2Opt path) \<le> calculateRouteDistance path \<and>
   optimizeRouteWith2Opt (optimizeRouteWith2Opt path) = optimizeRouteWith2Opt path"
proof (cases "length path < 4")
  case True
  then show ?thesis by (simp add: optimizeRouteWith2Opt_def)
next
  case False
  let ?R = "twoOptLoop path path (calculateRouteDistance path)"
  have R: "optimizeRouteWith2Opt path = ?R"
    using False by (simp add: optimizeRouteWith2Opt_def)
  from twoOptLoop_result [OF refl refl, of path]
  have len: "length ?R = length path"
    and le: "calculateRouteDistance ?R \<le> calculateRouteDistance path"
    and stable: "twoOptPass ?R ?R (calculateRouteDistance ?R) = (?R, calculateRouteDistance ?R, False)"
    by simp_all
  have "twoOptLoop ?R ?R (calculateRouteDistance ?R) = ?R"
    using stable by (subst twoOptLoop.simps) simp
  then have "optimizeRouteWith2Opt ?R = ?R"
    by (simp add: optimizeRouteWith2Opt_def)
  with le show ?thesis
    unfolding R by simp
qed

section \<open>Assignment of one order\<close>

lemma calculateDistance_same_y:
  "py p = py q \<Longrightarrow> calculateDistance p q = \<bar>px q - px p\<bar>"
  by (simp add: calculateDistance_def)

lemma calculateDistance_same_x:
  "px p = px q \<Longrightarrow> calculateDistance p q = \<bar>py q - py p\<bar>"
  by (simp add: calculateDistance_def)

lemma assignOrder_effect:
  "(\<not> canCarryOrder (drones_of w d) (orders_of w r) \<longrightarrow> assignOrder w d r = (False, w)) \<and>
   (canCarryOrder (drones_of w d) (orders_of w r) \<longrightarrow>
      fst (assignOrder w d r) \<and>
      drones_of (snd (assignOrder w d r)) d =
        (drones_of w d)\<lparr>assignedOrders := assignedOrders (drones_of w d) @ [r],
                        currentLoad := currentLoad (drones_of w d) + weight (orders_of w r)\<rparr> \<and>
      orders_of (snd (assignOrder w d r)) r =
        (orders_of w r)\<lparr>status := Assigned,
                        assignedDrone := Some (drone_id (drones_of w d))\<rparr> \<and>
      (\<forall>d'. d' \<noteq> d \<longrightarrow> drones_of (snd (assignOrder w d r)) d' = drones_of w d') \<and>
      (\<forall>r'. r' \<noteq> r \<longrightarrow> orders_of (snd (assignOrder w d r)) r' = orders_of w r'))"
  by (simp add: assignOrder_def Let_def)

text \<open>
  C10. \<open>assignOrder\<close> is all or nothing. When \<open>canCarryOrder\<close> fails it returns false and
  the store is unchanged. When it holds, it returns true, the drone differs from before
  in \<open>assignedOrders\<close> (the order appended) and \<open>currentLoad\<close> (the weight added) only,
  the order differs in \<open>status\<close> and \<open>assignedDrone\<close> only, and no other object changes.
\<close>

theorem assignOrder_atomic:
  "(\<not> canCarryOrder (drones_of w d) (orders_of w r) \<longrightarrow> assignOrder w d r = (False, w)) \<and>
   (canCarryOrder (drones_of w d) (orders_of w r) \<longrightarrow>
      fst (assignOrder w d r) \<and>
      drones_of (snd (assignOrder w d r)) d =
        (drones_of w d)\<lparr>assignedOrders := assignedOrders (drones_of w d) @ [r],
                        currentLoad := currentLoad (drones_of w d) + weight (orders_of w r)\<rparr> \<and>
      orders_of (snd (assignOrder w d r)) r =
        (orders_of w r)\<lparr>status := Assigned,
                        assignedDrone := Some (drone_id (drones_of w d))\<rparr> \<and>
      (\<forall>d'. d' \<noteq> d \<longrightarrow> drones_of (snd (assignOrder w d r)) d' = drones_of w d') \<and>
      (\<forall>r'. r' \<noteq> r \<longrightarrow> orders_of (snd (assignOrder w d r)) r' = orders_of w r'))"
  by (simp add: assignOrder_def Let_def)

lemma sample_canCarry_0: "canCarryOrder (drones_of sampleWorld 0) (orders_of sampleWorld 0)"
  by (simp add: canCarryOrder_def sampleWorld_def newDrone_def newOrder_def
      calculateDistance_same_y calculateBatteryNeeded_def)

lemma sample_canCarry_1: "\<not> canCarryOrder (drones_of sampleWorld 0) (orders_of sampleWorld 1)"
  by (simp add: canCarryOrder_def sampleWorld_def newDrone_def newOrder_def)

theorem assignOrder_atomic_witness:
  "canCarryOrder (drones_of sampleWorld 0) (orders_of sampleWorld 0) \<and>
   fst (assignOrder sampleWorld 0 0) \<and>
   currentLoad (drones_of (snd (assignOrder sampleWorld 0 0)) 0) = 2 \<and>
   assignedOrders (drones_of (snd (assignOrder sampleWorld 0 0)) 0) = [0] \<and>
   status (orders_of (snd (assignOrder sampleWorld 0 0)) 0) = Assigned \<and>
   assignedDrone (orders_of (snd (assignOrder sampleWorld 0 0)) 0) = Some 0 \<and>
   orders_of (snd (assignOrder sampleWorld 0 0)) 1 = orders_of sampleWorld 1 \<and>
   \<not> canCarryOrder (drones_of sampleWorld 0) (orders_of sampleWorld 1) \<and>
   assignOrder sampleWorld 0 1 = (False, sampleWorld)"
proof -
  note ok = assignOrder_atomic [of sampleWorld 0 0, THEN conjunct2, rule_format,
      OF sample_canCarry_0]
  note no = assignOrder_atomic [of sampleWorld 0 1, THEN conjunct1, rule_format,
      OF sample_canCarry_1]
  have "orders_of (snd (assignOrder sampleWorld 0 0)) 1 = orders_of sampleWorld 1"
    using ok by simp
  moreover have "currentLoad (drones_of (snd (assignOrder sampleWorld 0 0)) 0) = 2"
    "assignedOrders (drones_of (snd (assignOrder sampleWorld 0 0)) 0) = [0]"
    "status (orders_of (snd (assignOrder sampleWorld 0 0)) 0) = Assigned"
    "assignedDrone (orders_of (snd (assignOrder sampleWorld 0 0)) 0) = Some 0"
    using ok by (simp_all add: sampleWorld_def newDrone_def newOrder_def)
  ultimately show ?thesis
    using ok no sample_canCarry_0 sample_canCarry_1 by simp
qed

section \<open>Empty input\<close>

lemma greedyLoop_no_drones: "greedyLoop [] orders st = st"
proof (induction orders arbitrary: st)
  case Nil
  then show ?case by simp
next
  case (Cons r rs)
  obtain w asgs n where st: "st = (w, asgs, n)"
    by (cases st) auto
  show ?case
    unfolding st by (simp add: Cons.IH)
qed

lemma greedyAssignment_empty:
  assumes "orders = [] \<or> drones = []"
  shows "greedyAssignment w orders drones =
           (\<lparr>success = False, message = PedidosAtribuidosGuloso 0,
             assignments = Some [], strategy = Some ''greedy_assignment''\<rparr>, w)"
  using assms by (auto simp: greedyAssignment_def greedyLoop_no_drones)

text \<open>
  C8. With no order or no drone, \<open>optimizeDeliveries\<close> returns normally (it does not
  raise) a result whose \<open>success\<close> is false and that carries no assignment, and the
  store is unchanged; the greedy assignment on such an input also returns a result whose
  \<open>success\<close> is false, with an empty list of assignments and the store unchanged.
\<close>

theorem optimizeDeliveries_empty_input:
  assumes "orders = [] \<or> drones = []"
  shows "(\<exists>res. optimizeDeliveries now rnd w orders drones = Inr (res, w) \<and>
                \<not> success res \<and> assignments res = None) \<and>
         (\<exists>res. greedyAssignment w orders drones = (res, w) \<and>
                \<not> success res \<and> assignments res = Some [])"
  using assms greedyAssignment_empty [OF assms, of w]
  by (auto simp: optimizeDeliveries_def)

theorem optimizeDeliveries_empty_input_witness:
  "(\<exists>res. optimizeDeliveries 0 (\<lambda>i. 0) sampleWorld [0, 1] [] = Inr (res, sampleWorld) \<and>
          \<not> success res \<and> assignments res = None) \<and>
   (\<exists>res. greedyAssignment sampleWorld [0, 1] [] = (res, sampleWorld) \<and>
          \<not> success res \<and> assignments res = Some [])"
  using optimizeDeliveries_empty_input [of "[0, 1]" "[]" 0 "\<lambda>i. 0" sampleWorld]
  by simp

section \<open>Route construction\<close>

lemma routeLoop_Nil: "routeLoop w cur [] route = route"
  by (subst routeLoop.simps) simp

lemma routeLoop_Cons:
  "routeLoop w cur (u # us) route =
     (let nearestIndex = nearestIndexOf w cur (u # us);
          nearestOrder = (u # us) ! nearestIndex;
          loc = location (orders_of w nearestOrder)
      in routeLoop w loc (take nearestIndex (u # us) @ drop (Suc nearestIndex) (u # us))
           (route @ [\<lparr>px = px loc, py = py loc, wtype = Delivery, worder = Some nearestOrder\<rparr>]))"
  by (subst routeLoop.simps) simp

lemma nearestIndexOf_single: "nearestIndexOf w cur [u] = 0"
  by (simp add: nearestIndexOf_def)

lemma route_sorted:
  "js_sort (\<lambda>a b. priorityScores3 (priority (orders_of routeWorld b))
                  - priorityScores3 (priority (orders_of routeWorld a))) [0, Suc 0] = [0, Suc 0]"
  by (simp add: js_sort_def routeWorld_def newOrder_def priorityScores3_def)

lemma route_first: "nearestIndexOf routeWorld \<lparr>px = 10, py = 10\<rparr> [0, Suc 0] = Suc 0"
  by (simp add: nearestIndexOf_def routeWorld_def newOrder_def
      calculateDistance_same_x calculateDistance_same_y)

text \<open>
  C5. The route builder does not pick the unvisited order of least weighted distance:
  the first candidate enters the search with its plain distance, and a later one
  replaces the choice when its weighted distance is below the plain distance of the
  current choice. On the route example, order 0 has the smaller weighted distance from
  the base (0.7 against 0.84), and the route visits order 1 first.
\<close>

theorem optimizeRoute_not_weighted_nearest:
  "map worder (fst (optimizeRoute routeWorld 0)) = [None, Some 1, Some 0, None] \<and>
   calculateDistance (basePosition (drones_of routeWorld 0)) (location (orders_of routeWorld 0)) * 0.7
     < calculateDistance (basePosition (drones_of routeWorld 0)) (location (orders_of routeWorld 1)) * 0.7"
proof -
  have d: "drones_of routeWorld 0 = (newDrone 0 5 10)\<lparr>assignedOrders := [0, 1], currentLoad := 2\<rparr>"
    by (simp add: routeWorld_def)
  have "map worder (fst (optimizeRoute routeWorld 0)) = [None, Some 1, Some 0, None]"
    unfolding optimizeRoute_def d
    by (simp add: newDrone_def route_sorted routeLoop_Cons routeLoop_Nil route_first
        nearestIndexOf_single Let_def)
  moreover have "calculateDistance (basePosition (drones_of routeWorld 0)) (location (orders_of routeWorld 0)) * 0.7
     < calculateDistance (basePosition (drones_of routeWorld 0)) (location (orders_of routeWorld 1)) * 0.7"
    by (simp add: routeWorld_def newDrone_def newOrder_def
        calculateDistance_same_x calculateDistance_same_y)
  ultimately show ?thesis by simp
qed

section \<open>Range of a route\<close>

lemma range_strategy:
  "selectOptimizationStrategy (analyzeDeliveryScenario rangeWorld [0, Suc 0] [0])
     = ''balanced_optimization''"
  by (simp add: selectOptimizationStrategy_def analyzeDeliveryScenario_def
      calculateAverageDistanceFromBase_def rangeWorld_def newOrder_def
      calculateDistance_same_x)

lemma range_sorted:
  "js_sort (balancedCompare 0 rangeWorld [0]) [0, Suc 0] = [0, Suc 0]"
  by (simp add: js_sort_def balancedCompare_def calculateBalancedScore_def
      rangeWorld_def newOrder_def newDrone_def priorityScores100_def getWaitingTime_def
      calculateDistance_same_x)

lemma range_drone0: "drones_of rangeWorld 0 = newDrone 0 5 10"
  by (simp add: rangeWorld_def)

lemma range_order0: "orders_of rangeWorld 0 = newOrder 0 \<lparr>px = 10, py = 15\<rparr> 1 Baixa 0"
  by (simp add: rangeWorld_def)

lemma range_order1: "orders_of rangeWorld (Suc 0) = newOrder 1 \<lparr>px = 10, py = 5\<rparr> 1 Baixa 0"
  by (simp add: rangeWorld_def)

lemma range_carry0: "canCarryOrder (drones_of rangeWorld 0) (orders_of rangeWorld 0)"
  by (simp add: range_drone0 range_order0 canCarryOrder_def newDrone_def newOrder_def
      calculateDistance_same_x calculateBatteryNeeded_def)

lemma range_assign0: "assignOrder rangeWorld 0 0 = (True, rangeWorld1)"
  using assignOrder_effect [of rangeWorld 0 0] range_carry0
  by (simp add: rangeWorld1_def prod_eq_iff)

lemma range1_drone0:
  "drones_of rangeWorld1 0 = (newDrone 0 5 10)\<lparr>assignedOrders := [0], currentLoad := 1\<rparr>"
  using assignOrder_effect [of rangeWorld 0 0] range_carry0
  by (simp add: rangeWorld1_def range_drone0 range_order0 newDrone_def newOrder_def)

lemma range1_order1: "orders_of rangeWorld1 (Suc 0) = newOrder 1 \<lparr>px = 10, py = 5\<rparr> 1 Baixa 0"
  using assignOrder_effect [of rangeWorld 0 0] range_carry0
  by (simp add: rangeWorld1_def range_order1)

lemma range1_order0:
  "orders_of rangeWorld1 0 = (newOrder 0 \<lparr>px = 10, py = 15\<rparr> 1 Baixa 0)
      \<lparr>status := Assigned, assignedDrone := Some 0\<rparr>"
  using assignOrder_effect [of rangeWorld 0 0] range_carry0
  by (simp add: rangeWorld1_def range_order0 range_drone0 newDrone_def)

lemma range_carry1: "canCarryOrder (drones_of rangeWorld1 0) (orders_of rangeWorld1 (Suc 0))"
  by (simp add: range1_drone0 range1_order1 canCarryOrder_def newDrone_def newOrder_def
      calculateDistance_same_x calculateBatteryNeeded_def)

lemma range_assign1: "assignOrder rangeWorld1 0 (Suc 0) = (True, rangeWorld2)"
  using assignOrder_effect [of rangeWorld1 0 1] range_carry1
  by (simp add: rangeWorld2_def prod_eq_iff)

lemma range2_drone0:
  "drones_of rangeWorld2 0 = (newDrone 0 5 10)\<lparr>assignedOrders := [0, Suc 0], currentLoad := 2\<rparr>"
  using assignOrder_effect [of rangeWorld1 0 1] range_carry1
  by (simp add: rangeWorld2_def range1_drone0 range1_order1 newDrone_def newOrder_def)

lemma range2_order0:
  "orders_of rangeWorld2 0 = (newOrder 0 \<lparr>px = 10, py = 15\<rparr> 1 Baixa 0)
      \<lparr>status := Assigned, assignedDrone := Some 0\<rparr>"
  using assignOrder_effect [of rangeWorld1 0 1] range_carry1
  by (simp add: rangeWorld2_def range1_order0)

lemma range2_order1:
  "orders_of rangeWorld2 (Suc 0) = (newOrder 1 \<lparr>px = 10, py = 5\<rparr> 1 Baixa 0)
      \<lparr>status := Assigned, assignedDrone := Some 0\<rparr>"
  using assignOrder_effect [of rangeWorld1 0 1] range_carry1
  by (simp add: rangeWorld2_def range1_order1 range1_drone0 newDrone_def)

lemma range_best0: "fst (bestDroneLoop rangeWorld 0 [0] (None, Fin (- 1))) = Some 0"
  using range_carry0
  by (simp add: calculateAssignmentScore_def range_drone0 range_order0 newDrone_def
      newOrder_def jdiv_def calculateDistance_same_x)

lemma range_best1: "fst (bestDroneLoop rangeWorld1 (Suc 0) [0] (None, Fin (- 1))) = Some 0"
  using range_carry1
  by (simp add: calculateAssignmentScore_def range1_drone0 range1_order1 newDrone_def
      newOrder_def jdiv_def calculateDistance_same_x)

lemma range_greedy:
  "fst (greedyLoop [0] [0, Suc 0] (rangeWorld, [], 0)) = rangeWorld2"
  by (simp add: range_best0 range_assign0 range_best1 range_assign1
      range_order0 range1_order1 newOrder_def del: bestDroneLoop.simps)

lemma range_optimize:
  "\<exists>res. optimizeDeliveries 0 rnd rangeWorld [0, Suc 0] [0] = Inr (res, rangeWorld2)"
proof -
  obtain asgs n where g: "greedyLoop [0] [0, Suc 0] (rangeWorld, [], 0) = (rangeWorld2, asgs, n)"
    using range_greedy by (cases "greedyLoop [0] [0, Suc 0] (rangeWorld, [], 0)") auto
  show ?thesis
    by (simp add: optimizeDeliveries_def range_strategy applyOptimizationStrategy_def
        balancedOptimization_def range_sorted greedyAssignment_def g
        range_drone0 newDrone_def del: greedyLoop.simps)
qed

lemma range_route_sorted:
  "js_sort (\<lambda>a b. priorityScores3 (priority (orders_of rangeWorld2 b))
                  - priorityScores3 (priority (orders_of rangeWorld2 a))) [0, Suc 0] = [0, Suc 0]"
  by (simp add: js_sort_def range2_order0 range2_order1 newOrder_def priorityScores3_def)

lemma range_route_first: "nearestIndexOf rangeWorld2 \<lparr>px = 10, py = 10\<rparr> [0, Suc 0] = 0"
  by (simp add: nearestIndexOf_def range2_order0 range2_order1 newOrder_def
      calculateDistance_same_x)

lemma range_route:
  "fst (optimizeRoute rangeWorld2 0) =
     [\<lparr>px = 10, py = 10, wtype = Base, worder = None\<rparr>,
      \<lparr>px = 10, py = 15, wtype = Delivery, worder = Some 0\<rparr>,
      \<lparr>px = 10, py = 5, wtype = Delivery, worder = Some (Suc 0)\<rparr>,
      \<lparr>px = 10, py = 10, wtype = Base, worder = None\<rparr>]"
  unfolding optimizeRoute_def range2_drone0
  by (simp add: newDrone_def range_route_sorted routeLoop_Cons routeLoop_Nil
      range_route_first nearestIndexOf_single Let_def range2_order0 range2_order1 newOrder_def)

text \<open>
  C2. The route of a drone after an optimisation can be longer than its range:
  \<open>canCarryOrder\<close> bounds the round trip to each order alone, from the drone's
  position and back to the base, not the route through all assigned orders. On the range
  example both orders are assigned to the drone of range 10, and the route
  base, order 0, order 1, base built by \<open>optimizeRoute\<close> has length 20.
\<close>

theorem optimize_exceeds_range:
  "\<exists>res w'. optimizeDeliveries 0 (\<lambda>i. 0) rangeWorld [0, 1] [0] = Inr (res, w') \<and>
      assignedOrders (drones_of w' 0) = [0, 1] \<and>
      range_km (drones_of w' 0) = 10 \<and>
      map worder (fst (optimizeRoute w' 0)) = [None, Some 0, Some 1, None] \<and>
      calculateRouteDistance (fst (optimizeRoute w' 0)) = 20"
proof -
  obtain res where "optimizeDeliveries 0 (\<lambda>i. 0) rangeWorld [0, Suc 0] [0] = Inr (res, rangeWorld2)"
    using range_optimize by blast
  moreover have "calculateRouteDistance (fst (optimizeRoute rangeWorld2 0)) = 20"
    unfolding range_route
    by (simp add: calculateRouteDistance_def calculateDistance_same_x)
  moreover have "map worder (fst (optimizeRoute rangeWorld2 0)) = [None, Some 0, Some 1, None]"
    unfolding range_route by simp
  ultimately show ?thesis
    by (simp add: range2_drone0 newDrone_def)
qed

section \<open>Clustering\<close>

lemma nearestCentroidLoop_bound:
  "n < i \<Longrightarrow> fst (nearestCentroidLoop loc cs i (n, nd)) < i + length cs"
proof (induction cs arbitrary: i n nd)
  case Nil
  then show ?case by simp
next
  case (Cons c cs)
  have "fst (nearestCentroidLoop loc cs (i + 1) (i, x)) < (i + 1) + length cs" for x
    by (rule Cons.IH) simp
  moreover have "fst (nearestCentroidLoop loc cs (i + 1) (n, nd)) < (i + 1) + length cs"
    by (rule Cons.IH) (use Cons.prems in simp)
  ultimately show ?case by (simp add: Let_def)
qed

lemma nearestCentroid_bound:
  "centroids \<noteq> [] \<Longrightarrow> nearestCentroid loc centroids < length centroids"
  using nearestCentroidLoop_bound [of 0 1 loc "tl centroids"]
  by (cases centroids) (simp_all add: nearestCentroid_def)

lemma push_buckets:
  assumes "f x < k"
  shows "pushToCluster (map (\<lambda>i. filter (\<lambda>r. f r = i) xs) [0..<k]) (f x) x
           = map (\<lambda>i. filter (\<lambda>r. f r = i) (xs @ [x])) [0..<k]"
  using assms by (auto simp: pushToCluster_def intro!: nth_equalityI simp: nth_list_update)

lemma foldl_push_buckets:
  assumes "\<forall>x \<in> set xs. f x < k"
  shows "foldl (\<lambda>clusters r. pushToCluster clusters (f r) r) (replicate k []) xs
           = map (\<lambda>i. filter (\<lambda>r. f r = i) xs) [0..<k]"
  using assms
proof (induction xs rule: rev_induct)
  case Nil
  show ?case by (auto intro!: nth_equalityI)
next
  case (snoc x xs)
  then show ?case by (simp add: push_buckets)
qed

lemma assignToCentroids_buckets:
  assumes "centroids \<noteq> []"
  shows "assignToCentroids w orders centroids =
     map (\<lambda>i. filter (\<lambda>r. nearestCentroid (location (orders_of w r)) centroids = i) orders)
       [0..<length centroids]"
  unfolding assignToCentroids_def
  by (rule foldl_push_buckets) (simp add: nearestCentroid_bound [OF assms])

lemma length_foldl_push:
  "length (foldl (\<lambda>clusters r. pushToCluster clusters (f r) r) init xs) = length init"
  by (induction xs arbitrary: init) (simp_all add: pushToCluster_def)

lemma filter_mset_split:
  "filter_mset (\<lambda>r. f r < k) M + filter_mset (\<lambda>r. f r = k) M
     = filter_mset (\<lambda>r. (f r :: nat) < Suc k) M"
  by (induction M) (auto simp: less_Suc_eq)

lemma mset_concat_buckets:
  "mset (concat (map (\<lambda>i. filter (\<lambda>r. f r = i) xs) [0..<k]))
     = mset (filter (\<lambda>r. (f r :: nat) < k) xs)"
proof (induction k)
  case 0
  then show ?case by simp
next
  case (Suc k)
  then show ?case by (simp add: filter_mset_split)
qed

lemma mset_assignToCentroids:
  assumes "centroids \<noteq> []"
  shows "mset (concat (assignToCentroids w orders centroids)) = mset orders"
proof -
  have "filter (\<lambda>r. nearestCentroid (location (orders_of w r)) centroids < length centroids) orders
          = orders"
    using nearestCentroid_bound [OF assms] by simp
  then show ?thesis
    unfolding assignToCentroids_buckets [OF assms]
    using mset_concat_buckets
      [of "\<lambda>r. nearestCentroid (location (orders_of w r)) centroids" orders "length centroids"]
    by simp
qed

lemma length_assignToCentroids [simp]:
  "length (assignToCentroids w orders centroids) = length centroids"
  by (simp add: assignToCentroids_def length_foldl_push)

lemma length_kmeansIteration [simp]:
  "length (kmeansIteration w orders centroids) = length centroids"
  by (simp add: kmeansIteration_def)

lemma concat_filter_nonempty:
  "concat (filter (\<lambda>c. length c > 0) xss) = concat xss"
  by (induction xss) auto



lemma initCentroids_cong:
  assumes "\<forall>j. i \<le> j \<and> j < i + n \<longrightarrow> rnd1 j = rnd2 j"
  shows "initCentroids rnd1 w orders i n = initCentroids rnd2 w orders i n"
  using assms
proof (induction n arbitrary: i)
  case 0
  then show ?case by simp
next
  case (Suc n)
  have "rnd1 i = rnd2 i" using Suc.prems by simp
  moreover have "initCentroids rnd1 w orders (i + 1) n = initCentroids rnd2 w orders (i + 1) n"
    by (rule Suc.IH) (use Suc.prems in simp)
  ultimately show ?case by (auto split: sum.splits)
qed

lemma funpow_kmeans_length:
  "length (((kmeansIteration w orders) ^^ m) cs) = length cs"
  by (induction m) simp_all



lemma nearestCentroid_two:
  "nearestCentroid loc [c0, c1] =
     (if calculateDistance loc c1 < calculateDistance loc c0 then 1 else 0)"
  by (simp add: nearestCentroid_def Let_def)

lemma line_loc: "location (orders_of lineWorld r) = \<lparr>px = real r, py = 0\<rparr>"
  by (simp add: lineWorld_def newOrder_def)

lemma upt_2: "[0..<Suc (Suc 0)] = [0, Suc 0]"
  by (simp add: upt_rec)

lemma line_assign:
  "assignToCentroids lineWorld os [\<lparr>px = a, py = 0\<rparr>, \<lparr>px = b, py = 0\<rparr>] =
     [filter (\<lambda>r. \<not> \<bar>b - real r\<bar> < \<bar>a - real r\<bar>) os,
      filter (\<lambda>r. \<bar>b - real r\<bar> < \<bar>a - real r\<bar>) os]"
  by (simp add: assignToCentroids_buckets nearestCentroid_two line_loc
      calculateDistance_same_y upt_2)

lemma line_iter_A1:
  "kmeansIteration lineWorld [0, 2, 4] [\<lparr>px = 0, py = 0\<rparr>, \<lparr>px = 0, py = 0\<rparr>]
     = [\<lparr>px = 2, py = 0\<rparr>, \<lparr>px = 0, py = 0\<rparr>]"
  by (simp add: kmeansIteration_def line_assign updateCentroid_def line_loc)

lemma line_iter_A2:
  "kmeansIteration lineWorld [0, 2, 4] [\<lparr>px = 2, py = 0\<rparr>, \<lparr>px = 0, py = 0\<rparr>]
     = [\<lparr>px = 3, py = 0\<rparr>, \<lparr>px = 0, py = 0\<rparr>]"
  by (simp add: kmeansIteration_def line_assign updateCentroid_def line_loc)

lemma line_iter_A3:
  "kmeansIteration lineWorld [0, 2, 4] [\<lparr>px = 3, py = 0\<rparr>, \<lparr>px = 0, py = 0\<rparr>]
     = [\<lparr>px = 3, py = 0\<rparr>, \<lparr>px = 0, py = 0\<rparr>]"
  by (simp add: kmeansIteration_def line_assign updateCentroid_def line_loc)

lemma line_iter_B1:
  "kmeansIteration lineWorld [0, 2, 4] [\<lparr>px = 0, py = 0\<rparr>, \<lparr>px = 2, py = 0\<rparr>]
     = [\<lparr>px = 0, py = 0\<rparr>, \<lparr>px = 3, py = 0\<rparr>]"
  by (simp add: kmeansIteration_def line_assign updateCentroid_def line_loc)

lemma line_iter_B2:
  "kmeansIteration lineWorld [0, 2, 4] [\<lparr>px = 0, py = 0\<rparr>, \<lparr>px = 3, py = 0\<rparr>]
     = [\<lparr>px = 0, py = 0\<rparr>, \<lparr>px = 3, py = 0\<rparr>]"
  by (simp add: kmeansIteration_def line_assign updateCentroid_def line_loc)

lemma initCentroids_2:
  "initCentroids rnd w os i 2 =
     (case randomOrder (rnd i) os of
        Inl e \<Rightarrow> Inl e
      | Inr r \<Rightarrow> (case randomOrder (rnd (i + 1)) os of
                   Inl e \<Rightarrow> Inl e
                 | Inr r' \<Rightarrow> Inr [location (orders_of w r), location (orders_of w r')]))"
  by (simp add: numeral_2_eq_2 split: sum.splits)

lemma funpow_3: "(f ^^ 3) x = f (f (f x))"
  by (simp add: eval_nat_numeral)

lemma line_init_A:
  "initCentroids drawsA lineWorld [0, 2, 4] 0 2 = Inr [\<lparr>px = 0, py = 0\<rparr>, \<lparr>px = 0, py = 0\<rparr>]"
  by (simp add: initCentroids_2 randomOrder_def drawsA_def line_loc)

lemma line_init_B:
  "initCentroids drawsB lineWorld [0, 2, 4] 0 2 = Inr [\<lparr>px = 0, py = 0\<rparr>, \<lparr>px = 2, py = 0\<rparr>]"
  by (simp add: initCentroids_2 randomOrder_def drawsB_def line_loc)

lemma line_cluster_A:
  "clusterOrdersByDistance drawsA lineWorld [0, 2, 4] 2 = Inr [[2, 4], [0]]"
  by (simp add: clusterOrdersByDistance_def line_init_A funpow_3
      line_iter_A1 line_iter_A2 line_iter_A3 line_assign)

lemma line_cluster_B:
  "clusterOrdersByDistance drawsB lineWorld [0, 2, 4] 2 = Inr [[0], [2, 4]]"
  by (simp add: clusterOrdersByDistance_def line_init_B funpow_3
      line_iter_B1 line_iter_B2 line_assign)


text \<open>
  C6 (as amended). \<open>clusterOrdersByDistance\<close> has no seed parameter: it draws its \<open>k\<close>
  initial centroids from the ambient \<open>Math.random\<close>. Two calls on the same orders and \<open>k\<close>
  give the same clusters when they see the same \<open>k\<close> draws, and always when there are at
  most \<open>k\<close> orders, where nothing is drawn.
\<close>

theorem cluster_deterministic_given_draws:
  assumes "length orders \<le> k \<or> (\<forall>i<k. rnd1 i = rnd2 i)"
  shows "clusterOrdersByDistance rnd1 w orders k = clusterOrdersByDistance rnd2 w orders k"
proof (cases "length orders \<le> k")
  case True
  then show ?thesis by (simp add: clusterOrdersByDistance_def)
next
  case False
  with assms have "\<forall>j. 0 \<le> j \<and> j < 0 + k \<longrightarrow> rnd1 j = rnd2 j" by simp
  then have "initCentroids rnd1 w orders 0 k = initCentroids rnd2 w orders 0 k"
    by (rule initCentroids_cong)
  then show ?thesis by (simp add: clusterOrdersByDistance_def)
qed

theorem cluster_deterministic_given_draws_witness:
  "drawsA 0 = drawsC 0 \<and> drawsA 1 = drawsC 1 \<and> drawsA 2 \<noteq> drawsC 2 \<and>
   clusterOrdersByDistance drawsA lineWorld [0, 2, 4] 2
     = clusterOrdersByDistance drawsC lineWorld [0, 2, 4] 2 \<and>
   clusterOrdersByDistance drawsC lineWorld [0, 2, 4] 2 = Inr [[2, 4], [0]]"
proof -
  have "\<forall>i<2. drawsA i = drawsC i"
    by (simp add: drawsA_def drawsC_def)
  then have "clusterOrdersByDistance drawsA lineWorld [0, 2, 4] 2
     = clusterOrdersByDistance drawsC lineWorld [0, 2, 4] 2"
    using cluster_deterministic_given_draws [of "[0, 2, 4]" 2 drawsA drawsC lineWorld] by simp
  then show ?thesis
    using line_cluster_A by (simp add: drawsA_def drawsC_def)
qed

text \<open>
  C6 as stated fails: on the same three orders and \<open>k = 2\<close>, two sequences of draws
  give different clusters.
\<close>

theorem cluster_depends_on_ambient_draws:
  "clusterOrdersByDistance drawsA lineWorld [0, 2, 4] 2
     \<noteq> clusterOrdersByDistance drawsB lineWorld [0, 2, 4] 2"
  by (simp add: line_cluster_A line_cluster_B)









































section \<open>Capacity invariant\<close>

lemma assignOrder_cases:
  assumes "assignOrder w d r = (b, w')"
  obtains (fail) "b = False" "w' = w"
  | (ok) "b = True" "canCarryOrder (drones_of w d) (orders_of w r)"
      "w' = w\<lparr>drones_of := (drones_of w)
                 (d := (drones_of w d)\<lparr>assignedOrders := assignedOrders (drones_of w d) @ [r],
                        currentLoad := currentLoad (drones_of w d) + weight (orders_of w r)\<rparr>),
               orders_of := (orders_of w)
                 (r := (orders_of w r)\<lparr>status := Assigned,
                        assignedDrone := Some (drone_id (drones_of w d))\<rparr>)\<rparr>"
  using assms by (auto simp: assignOrder_def Let_def split: if_splits)

lemma assignOrder_loadInvariant:
  assumes "loadInvariant w d'" and "assignOrder w d r = (b, w')"
  shows "loadInvariant w' d'"
  using assms(2)
proof (cases rule: assignOrder_cases)
  case fail
  with assms(1) show ?thesis by simp
next
  case ok
  have wt: "weight (orders_of w' r') = weight (orders_of w r')" for r'
    using ok(3) by simp
  have sums: "sum_list (map (\<lambda>r. weight (orders_of w' r)) xs)
      = sum_list (map (\<lambda>r. weight (orders_of w r)) xs)" for xs
    by (simp add: wt)
  show ?thesis
  proof (cases "d' = d")
    case True
    have "assignedOrders (drones_of w' d) = assignedOrders (drones_of w d) @ [r]"
      using ok(3) by simp
    then have "assignedWeight w' d = assignedWeight w d + weight (orders_of w r)"
      unfolding assignedWeight_def sums by simp
    moreover have "currentLoad (drones_of w' d) = currentLoad (drones_of w d) + weight (orders_of w r)"
      "capacity (drones_of w' d) = capacity (drones_of w d)"
      using ok(3) by simp_all
    moreover have "currentLoad (drones_of w d) + weight (orders_of w r) \<le> capacity (drones_of w d)"
      using ok(2) by (simp add: canCarryOrder_def Let_def)
    ultimately show ?thesis
      using assms(1) True by (simp add: loadInvariant_def)
  next
    case False
    then have "drones_of w' d' = drones_of w d'"
      using ok(3) by simp
    moreover have "assignedWeight w' d' = assignedWeight w d'"
      unfolding assignedWeight_def sums using ok(3) False by simp
    ultimately show ?thesis
      using assms(1) by (simp add: loadInvariant_def)
  qed
qed

lemma assignStableD:
  "assignStable P \<Longrightarrow> P w \<Longrightarrow> assignOrder w d r = (b, w') \<Longrightarrow> P w'"
  unfolding assignStable_def by (metis snd_conv)

lemma greedyLoop_stable:
  assumes "assignStable P"
  shows "P (fst st) \<Longrightarrow> P (fst (greedyLoop av os st))"
proof (induction os arbitrary: st)
  case Nil
  then show ?case by simp
next
  case (Cons r rs)
  obtain w asgs n where st: "st = (w, asgs, n)" by (cases st) auto
  with Cons.prems have Pw: "P w" by simp
  have step: "P w' \<Longrightarrow> P (fst (greedyLoop av rs (w', a, m)))" for w' a m
    using Cons.IH [of "(w', a, m)"] by simp
  show ?case
    unfolding st
    using Pw step assignStableD [OF assms Pw]
    by (auto split: option.splits prod.splits bool.splits)
qed

lemma assignCombination_stable:
  assumes "assignStable P"
  shows "P (fst st) \<Longrightarrow> P (fst (assignCombination d rs st))"
proof (induction rs arbitrary: st)
  case Nil
  then show ?case by simp
next
  case (Cons r rs)
  obtain w pend where st: "st = (w, pend)" by (cases st) auto
  with Cons.prems have Pw: "P w" by simp
  have step: "P w' \<Longrightarrow> P (fst (assignCombination d rs (w', p)))" for w' p
    using Cons.IH [of "(w', p)"] by simp
  show ?case
    unfolding st
    using Pw step assignStableD [OF assms Pw]
    by (auto split: prod.splits bool.splits)
qed

lemma capacityLoop_stable:
  assumes "assignStable P"
  shows "P (fst st) \<Longrightarrow> P (fst (capacityLoop now ds st))"
proof (induction ds arbitrary: st)
  case Nil
  then show ?case by simp
next
  case (Cons d ds)
  obtain w pend asgs where st: "st = (w, pend, asgs)" by (cases st) auto
  with Cons.prems have Pw: "P w" by simp
  have step: "P w' \<Longrightarrow> P (fst (capacityLoop now ds (w', p, a)))" for w' p a
    using Cons.IH [of "(w', p, a)"] by simp
  have inner: "P (fst (assignCombination d cs (w, pend)))" for cs
    using assignCombination_stable [OF assms, of "(w, pend)"] Pw by simp
  show ?case
    unfolding st
    using Pw step inner
    by (auto simp: Let_def split: prod.splits) (metis fst_conv)
qed

lemma assignCluster_stable:
  assumes "assignStable P"
  shows "P (fst st) \<Longrightarrow> P (fst (assignCluster d rs st))"
proof (induction rs arbitrary: st)
  case Nil
  then show ?case by simp
next
  case (Cons r rs)
  obtain w acc where st: "st = (w, acc)" by (cases st) auto
  with Cons.prems have Pw: "P w" by simp
  have step: "P w' \<Longrightarrow> P (fst (assignCluster d rs (w', a)))" for w' a
    using Cons.IH [of "(w', a)"] by simp
  show ?case
    unfolding st
    using Pw step assignStableD [OF assms Pw]
    by (auto split: prod.splits bool.splits)
qed

lemma distanceLoop_stable:
  assumes "assignStable P"
  shows "P (fst st) \<Longrightarrow> P (fst (distanceLoop cds st))"
proof (induction cds arbitrary: st)
  case Nil
  then show ?case by simp
next
  case (Cons cd cds)
  obtain w asgs where st: "st = (w, asgs)" by (cases st) auto
  obtain c d where cd: "cd = (c, d)" by (cases cd) auto
  with Cons.prems st have Pw: "P w" by simp
  have step: "P w' \<Longrightarrow> P (fst (distanceLoop cds (w', a)))" for w' a
    using Cons.IH [of "(w', a)"] by simp
  have inner: "P (fst (assignCluster d cs (w, [])))" for cs
    using assignCluster_stable [OF assms, of "(w, [])"] Pw by simp
  show ?case
    unfolding st cd
    using Pw step inner
    by (auto simp: Let_def split: prod.splits) (metis fst_conv)+
qed

lemma greedyAssignment_stable:
  "assignStable P \<Longrightarrow> P w \<Longrightarrow> P (snd (greedyAssignment w orders drones))"
  using greedyLoop_stable [of P "(w, [], 0)"]
  by (auto simp: greedyAssignment_def split: prod.splits) (metis fst_conv)

lemma capacityOptimization_stable:
  "assignStable P \<Longrightarrow> P w \<Longrightarrow> P (snd (capacityOptimization now w orders drones))"
  using capacityLoop_stable [of P "(w, filter (\<lambda>r. status (orders_of w r) = Pending) orders, [])"]
  by (auto simp: capacityOptimization_def split: prod.splits) (metis fst_conv)

lemma distanceOptimization_stable:
  "assignStable P \<Longrightarrow> P w \<Longrightarrow> distanceOptimization rnd w orders drones = Inr (res, w')
     \<Longrightarrow> P w'"
  using distanceLoop_stable [of P "(w, [])"]
  by (auto simp: distanceOptimization_def split: sum.splits prod.splits) (metis fst_conv)

lemma applyOptimizationStrategy_stable:
  assumes "assignStable P" "P w"
    and "applyOptimizationStrategy now rnd w orders drones strat = Inr (res, w')"
  shows "P w'"
proof -
  have "P (snd (priorityFirstOptimization now w orders drones))"
    "P (snd (balancedOptimization now w orders drones))"
    using greedyAssignment_stable [OF assms(1,2)]
    by (simp_all add: priorityFirstOptimization_def balancedOptimization_def Let_def)
  moreover note capacityOptimization_stable [OF assms(1,2), of now orders drones]
    distanceOptimization_stable [OF assms(1,2), of rnd orders drones res w']
  ultimately show ?thesis
    using assms(3)
    by (auto simp: applyOptimizationStrategy_def split: if_splits)
qed

lemma loadInvariant_stable: "assignStable (\<lambda>w. \<forall>d\<in>D. loadInvariant w d)"
  unfolding assignStable_def
  using assignOrder_loadInvariant by (metis prod.collapse)

lemma optimizeDeliveries_stable:
  assumes "assignStable P" "P w"
    and "optimizeDeliveries now rnd w orders drones = Inr (res, w')"
  shows "P w'"
proof (cases "length orders = 0 \<or> length drones = 0")
  case True
  with assms(2,3) show ?thesis by (auto simp: optimizeDeliveries_def)
next
  case False
  then have "applyOptimizationStrategy now rnd w orders drones
      (selectOptimizationStrategy (analyzeDeliveryScenario w orders drones)) = Inr (res, w')"
    using assms(3) by (simp add: optimizeDeliveries_def Let_def)
  then show ?thesis by (rule applyOptimizationStrategy_stable [OF assms(1,2)])
qed

text \<open>
  C1. If every drone satisfies the load invariant before an optimisation (as new and
  reset drones do), then after \<open>applyOptimizationStrategy\<close> returns, for any strategy,
  and after \<open>optimizeDeliveries\<close> returns, every drone satisfies it: its \<open>currentLoad\<close> is
  the sum of the weights of its \<open>assignedOrders\<close> and is at most its \<open>capacity\<close>.
\<close>

theorem capacity_invariant:
  assumes "\<forall>d \<in> set drones. loadInvariant w d"
    and "applyOptimizationStrategy now rnd w orders drones strat = Inr (res, w') \<or>
         optimizeDeliveries now rnd w orders drones = Inr (res, w')"
  shows "\<forall>d \<in> set drones. loadInvariant w' d"
  using assms(2)
    applyOptimizationStrategy_stable [OF loadInvariant_stable, of "set drones", OF assms(1)]
    optimizeDeliveries_stable [OF loadInvariant_stable, of "set drones", OF assms(1)]
  by blast

lemma range_apply_balanced:
  "\<exists>res. applyOptimizationStrategy 0 rnd rangeWorld [0, Suc 0] [0] ''balanced_optimization''
            = Inr (res, rangeWorld2)"
proof -
  obtain asgs n where g: "greedyLoop [0] [0, Suc 0] (rangeWorld, [], 0) = (rangeWorld2, asgs, n)"
    using range_greedy by (cases "greedyLoop [0] [0, Suc 0] (rangeWorld, [], 0)") auto
  show ?thesis
    by (simp add: applyOptimizationStrategy_def
        balancedOptimization_def range_sorted greedyAssignment_def g
        range_drone0 newDrone_def del: greedyLoop.simps)
qed

theorem capacity_invariant_witness:
  "loadInvariant rangeWorld 0 \<and>
   (\<exists>res. applyOptimizationStrategy 0 drawsA rangeWorld [0, 1] [0] ''balanced_optimization''
            = Inr (res, rangeWorld2)) \<and>
   loadInvariant rangeWorld2 0 \<and>
   currentLoad (drones_of rangeWorld2 0) = 2 \<and> capacity (drones_of rangeWorld2 0) = 5"
proof -
  have pre: "\<forall>d \<in> set [0]. loadInvariant rangeWorld d"
    by (simp add: loadInvariant_def assignedWeight_def range_drone0 newDrone_def)
  obtain res where run: "applyOptimizationStrategy 0 drawsA rangeWorld [0, Suc 0] [0]
      ''balanced_optimization'' = Inr (res, rangeWorld2)"
    using range_apply_balanced by blast
  have "\<forall>d \<in> set [0]. loadInvariant rangeWorld2 d"
    by (rule capacity_invariant [OF pre disjI1 [OF run]])
  with pre run show ?thesis
    by (simp add: range2_drone0 newDrone_def)
qed

section \<open>No double assignment\<close>

lemma assignOrder_pending_OK:
  assumes J: "\<forall>r \<in> R. orderOK w D r"
    and d: "d \<in> D" and r: "r \<in> R" and pend: "status (orders_of w r) = Pending"
    and run: "assignOrder w d r = (b, w')"
  shows "\<forall>r \<in> R. orderOK w' D r"
  using run
proof (cases rule: assignOrder_cases)
  case fail
  with J show ?thesis by simp
next
  case ok
  have ao: "assignedOrders (drones_of w' x) =
      (if x = d then assignedOrders (drones_of w d) @ [r] else assignedOrders (drones_of w x))" for x
    using ok(3) by simp
  have ids: "drone_id (drones_of w' x) = drone_id (drones_of w x)" for x
    using ok(3) by simp
  have other: "orders_of w' x = orders_of w x" if "x \<noteq> r" for x
    using ok(3) that by simp
  have this_st: "status (orders_of w' r) = Assigned"
    and this_ad: "assignedDrone (orders_of w' r) = Some (drone_id (drones_of w d))"
    using ok(3) by simp_all
  have free: "unheld w D r"
    using J r pend by (auto simp: orderOK_def)
  show ?thesis
  proof
    fix x assume x: "x \<in> R"
    show "orderOK w' D x"
    proof (cases "x = r")
      case True
      have "count_list (assignedOrders (drones_of w' d)) r = 1"
        using free d by (simp add: ao unheld_def)
      moreover have "\<forall>d' \<in> D. d' \<noteq> d \<longrightarrow> r \<notin> set (assignedOrders (drones_of w' d'))"
        using free by (simp add: ao unheld_def)
      moreover have "assignedDrone (orders_of w' r) = Some (drone_id (drones_of w' d))"
        using this_ad by (simp add: ids)
      ultimately have "singlyAssigned w' D r"
        unfolding singlyAssigned_def using d by (intro bexI [of _ d]) simp_all
      with True this_st show ?thesis by (simp add: orderOK_def)
    next
      case False
      have mem: "x \<in> set (assignedOrders (drones_of w' y)) \<longleftrightarrow>
          x \<in> set (assignedOrders (drones_of w y))" for y
        using False by (simp add: ao)
      have cnt: "count_list (assignedOrders (drones_of w' y)) x =
          count_list (assignedOrders (drones_of w y)) x" for y
        using False by (simp add: ao)
      have "orderOK w D x" using J x by simp
      then show ?thesis
        unfolding orderOK_def unheld_def singlyAssigned_def
        by (simp add: mem cnt ids other [OF False])
    qed
  qed
qed

lemma bestDroneLoop_mem:
  "fst (bestDroneLoop w r ds (bd, s)) = Some d \<Longrightarrow> d \<in> set ds \<or> bd = Some d"
proof (induction ds arbitrary: bd s)
  case Nil
  then show ?case by simp
next
  case (Cons x xs)
  then show ?case
    by (fastforce simp: Let_def split: if_splits)
qed

lemma greedyLoop_OK:
  assumes "set av \<subseteq> D" "set os \<subseteq> R"
  shows "\<forall>r \<in> R. orderOK (fst st) D r \<Longrightarrow> \<forall>r \<in> R. orderOK (fst (greedyLoop av os st)) D r"
  using assms(2)
proof (induction os arbitrary: st)
  case Nil
  then show ?case by simp
next
  case (Cons r rs)
  obtain w asgs n where st: "st = (w, asgs, n)" by (cases st) auto
  with Cons.prems have J: "\<forall>r \<in> R. orderOK w D r" by simp
  from Cons.prems have rR: "r \<in> R" and rs: "set rs \<subseteq> R" by simp_all
  have step: "\<forall>r \<in> R. orderOK w' D r \<Longrightarrow>
      \<forall>r \<in> R. orderOK (fst (greedyLoop av rs (w', a, m))) D r" for w' a m
    using Cons.IH [of "(w', a, m)"] rs by simp
  show ?case
  proof (cases "status (orders_of w r) = Pending")
    case False
    then show ?thesis unfolding st using step [OF J] by simp
  next
    case True
    show ?thesis
    proof (cases "fst (bestDroneLoop w r av (None, Fin (- 1)))")
      case None
      then show ?thesis unfolding st using True step [OF J] by simp
    next
      case (Some bd)
      then have "bd \<in> D"
        using bestDroneLoop_mem [of w r av None "Fin (- 1)" bd] assms(1) by auto
      obtain b w' where run: "assignOrder w bd r = (b, w')"
        by (cases "assignOrder w bd r") auto
      have J': "\<forall>r \<in> R. orderOK w' D r"
        by (rule assignOrder_pending_OK [OF J \<open>bd \<in> D\<close> rR True run])
      show ?thesis
      proof (cases b)
        case True
        then show ?thesis
          unfolding st using \<open>status (orders_of w r) = Pending\<close> Some run step [OF J'] by simp
      next
        case False
        then show ?thesis
          unfolding st using \<open>status (orders_of w r) = Pending\<close> Some run step [OF J] by simp
      qed
    qed
  qed
qed


lemma mset_js_insert: "mset (js_insert cmp x ys) = add_mset x (mset ys)"
  by (induction ys) simp_all

lemma mset_js_sort: "mset (js_sort cmp xs) = mset xs"
  unfolding js_sort_def by (induction xs) (simp_all add: mset_js_insert)

lemma set_js_sort: "set (js_sort cmp xs) = set xs"
  using mset_js_sort [of cmp xs] by (rule mset_eq_setD)

lemma distinct_js_sort: "distinct (js_sort cmp xs) = distinct xs"
  using mset_js_sort [of cmp xs] by (rule mset_eq_imp_distinct_iff)

lemma set_fillLoop: "set (fillLoop w rs c) \<subseteq> set rs"
  by (induction rs arbitrary: c) auto

lemma distinct_fillLoop: "distinct rs \<Longrightarrow> distinct (fillLoop w rs c)"
proof (induction rs arbitrary: c)
  case Nil
  then show ?case by simp
next
  case (Cons r rs)
  then show ?case using set_fillLoop [of w rs] by auto
qed

lemma findBestOrderCombination_sub:
  "set (findBestOrderCombination now w pend d) \<subseteq> set pend"
proof (cases "filter (\<lambda>r. canCarryOrder (drones_of w d) (orders_of w r)) pend = []")
  case True
  then show ?thesis by (simp add: findBestOrderCombination_def)
next
  case False
  let ?valid = "filter (\<lambda>r. canCarryOrder (drones_of w d) (orders_of w r)) pend"
  obtain cmp c where "findBestOrderCombination now w pend d = fillLoop w (js_sort cmp ?valid) c"
    using False by (simp add: findBestOrderCombination_def Let_def)
  moreover have "set (fillLoop w (js_sort cmp ?valid) c) \<subseteq> set (js_sort cmp ?valid)"
    by (rule set_fillLoop)
  ultimately show ?thesis by (auto simp: set_js_sort)
qed

lemma findBestOrderCombination_distinct:
  "distinct pend \<Longrightarrow> distinct (findBestOrderCombination now w pend d)"
  by (simp add: findBestOrderCombination_def Let_def distinct_fillLoop distinct_js_sort)

lemma assignOrder_other_status:
  "assignOrder w d r = (b, w') \<Longrightarrow> x \<noteq> r \<Longrightarrow> orders_of w' x = orders_of w x"
  by (erule assignOrder_cases) simp_all

lemma assignCombination_OK:
  assumes "d \<in> D"
  shows "distinct cs \<Longrightarrow> set cs \<subseteq> set pend \<Longrightarrow> pendingList w R pend \<Longrightarrow>
         \<forall>r \<in> R. orderOK w D r \<Longrightarrow>
         assignCombination d cs (w, pend) = (w', pend') \<Longrightarrow>
         (\<forall>r \<in> R. orderOK w' D r) \<and> pendingList w' R pend'"
proof (induction cs arbitrary: w pend)
  case Nil
  then show ?case by simp
next
  case (Cons r cs)
  from Cons.prems have rp: "r \<in> set pend" and rcs: "r \<notin> set cs" and dcs: "distinct cs"
    and sub: "set cs \<subseteq> set pend" by simp_all
  from Cons.prems(3) rp have rR: "r \<in> R" and pend: "status (orders_of w r) = Pending"
    by (auto simp: pendingList_def)
  obtain b w1 where run: "assignOrder w d r = (b, w1)"
    by (cases "assignOrder w d r") auto
  have J1: "\<forall>r \<in> R. orderOK w1 D r"
    by (rule assignOrder_pending_OK [OF Cons.prems(4) assms rR pend run])
  show ?case
  proof (cases b)
    case True
    let ?pend1 = "spliceIndexOf r pend"
    have p1: "?pend1 = remove1 r pend" using rp by (simp add: spliceIndexOf_def)
    have "pendingList w1 R ?pend1"
      using Cons.prems(3) assignOrder_other_status [OF run]
      unfolding p1 pendingList_def by (auto simp: )
    moreover have "set cs \<subseteq> set ?pend1"
      using sub rcs Cons.prems(3) unfolding p1 pendingList_def by auto
    moreover have "assignCombination d cs (w1, ?pend1) = (w', pend')"
      using Cons.prems(5) run True by simp
    ultimately show ?thesis
      using Cons.IH [OF dcs _ _ J1] by blast
  next
    case False
    then have "w1 = w" using run by (auto elim: assignOrder_cases)
    moreover have "assignCombination d cs (w, pend) = (w', pend')"
      using Cons.prems(5) run False by simp
    ultimately show ?thesis
      using Cons.IH [OF dcs sub Cons.prems(3,4)] by blast
  qed
qed

lemma capacityLoop_OK:
  assumes "set ds \<subseteq> D"
  shows "pendingList w R pend \<Longrightarrow> \<forall>r \<in> R. orderOK w D r \<Longrightarrow>
         \<forall>r \<in> R. orderOK (fst (capacityLoop now ds (w, pend, asgs))) D r"
  using assms
proof (induction ds arbitrary: w pend asgs)
  case Nil
  then show ?case by simp
next
  case (Cons d ds)
  from Cons.prems have dD: "d \<in> D" and ds: "set ds \<subseteq> D" by simp_all
  let ?best = "findBestOrderCombination now w pend d"
  show ?case
  proof (cases "length ?best > 0")
    case False
    then show ?thesis
      using Cons.IH [OF Cons.prems(1,2) ds] by (simp add: Let_def)
  next
    case True
    obtain w1 pend1 where inner: "assignCombination d ?best (w, pend) = (w1, pend1)"
      by (cases "assignCombination d ?best (w, pend)") auto
    have "distinct ?best"
      using Cons.prems(1) by (simp add: pendingList_def findBestOrderCombination_distinct)
    from assignCombination_OK [OF dD this findBestOrderCombination_sub Cons.prems(1,2) inner]
    have "\<forall>r \<in> R. orderOK w1 D r" "pendingList w1 R pend1" by simp_all
    from Cons.IH [OF this(2,1) ds] show ?thesis
      using True inner by (simp add: Let_def)
  qed
qed

lemma capacityOptimization_OK:
  assumes "distinct orders" "\<forall>r \<in> set orders. orderOK w (set drones) r"
  shows "\<forall>r \<in> set orders. orderOK (snd (capacityOptimization now w orders drones)) (set drones) r"
proof -
  let ?pend = "filter (\<lambda>r. status (orders_of w r) = Pending) orders"
  let ?av = "filter (\<lambda>d. dstatus (drones_of w d) = Idle) drones"
  have "pendingList w (set orders) ?pend"
    using assms(1) by (auto simp: pendingList_def)
  moreover have "set ?av \<subseteq> set drones" by auto
  ultimately have "\<forall>r \<in> set orders.
      orderOK (fst (capacityLoop now ?av (w, ?pend, []))) (set drones) r"
    using capacityLoop_OK assms(2) by blast
  then show ?thesis
    by (cases "capacityLoop now ?av (w, ?pend, [])")
       (simp add: capacityOptimization_def Let_def)
qed


lemma assignCluster_frame:
  "x \<notin> set cs \<Longrightarrow> orders_of (fst (assignCluster d cs (w, acc))) x = orders_of w x"
proof (induction cs arbitrary: w acc)
  case Nil
  then show ?case by simp
next
  case (Cons r cs)
  then have xr: "x \<noteq> r" and xcs: "x \<notin> set cs" by simp_all
  obtain b w1 where run: "assignOrder w d r = (b, w1)"
    by (cases "assignOrder w d r") auto
  have "orders_of w1 x = orders_of w x"
    by (rule assignOrder_other_status [OF run xr])
  moreover have "b \<Longrightarrow> orders_of (fst (assignCluster d cs (w1, a))) x = orders_of w1 x" for a
    by (rule Cons.IH [OF xcs])
  moreover have "orders_of (fst (assignCluster d cs (w, a))) x = orders_of w x" for a
    by (rule Cons.IH [OF xcs])
  ultimately show ?case
    using run by (cases b) (simp_all)
qed

lemma assignCluster_OK:
  assumes "d \<in> D"
  shows "distinct cs \<Longrightarrow> set cs \<subseteq> R \<Longrightarrow> \<forall>r \<in> set cs. status (orders_of w r) = Pending \<Longrightarrow>
         \<forall>r \<in> R. orderOK w D r \<Longrightarrow>
         \<forall>r \<in> R. orderOK (fst (assignCluster d cs (w, acc))) D r"
proof (induction cs arbitrary: w acc)
  case Nil
  then show ?case by simp
next
  case (Cons r cs)
  from Cons.prems have rR: "r \<in> R" and pend: "status (orders_of w r) = Pending"
    and rcs: "r \<notin> set cs" and dcs: "distinct cs" and sub: "set cs \<subseteq> R"
    and rest: "\<forall>x \<in> set cs. status (orders_of w x) = Pending"
    by simp_all
  obtain b w1 where run: "assignOrder w d r = (b, w1)"
    by (cases "assignOrder w d r") auto
  have J1: "\<forall>r \<in> R. orderOK w1 D r"
    by (rule assignOrder_pending_OK [OF Cons.prems(4) assms rR pend run])
  have rest1: "\<forall>x \<in> set cs. status (orders_of w1 x) = Pending"
  proof
    fix x assume x: "x \<in> set cs"
    then have "x \<noteq> r" using rcs by auto
    then have "orders_of w1 x = orders_of w x" by (rule assignOrder_other_status [OF run])
    with rest x show "status (orders_of w1 x) = Pending" by simp
  qed
  have a: "\<forall>r \<in> R. orderOK (fst (assignCluster d cs (w1, a))) D r" for a
    by (rule Cons.IH [OF dcs sub rest1 J1])
  have b: "\<forall>r \<in> R. orderOK (fst (assignCluster d cs (w, a))) D r" for a
    by (rule Cons.IH [OF dcs sub rest Cons.prems(4)])
  show ?case
    using run a b by (cases b) simp_all
qed

lemma distanceLoop_OK:
  "set (map snd cds) \<subseteq> D \<Longrightarrow> distinct (concat (map fst cds)) \<Longrightarrow>
   set (concat (map fst cds)) \<subseteq> R \<Longrightarrow>
   \<forall>r \<in> set (concat (map fst cds)). status (orders_of w r) = Pending \<Longrightarrow>
   \<forall>r \<in> R. orderOK w D r \<Longrightarrow>
   \<forall>r \<in> R. orderOK (fst (distanceLoop cds (w, asgs))) D r"
proof (induction cds arbitrary: w asgs)
  case Nil
  then show ?case by simp
next
  case (Cons cd cds)
  obtain c d where cd: "cd = (c, d)" by (cases cd) auto
  let ?sorted = "js_sort (\<lambda>a b. priorityScores3 (priority (orders_of w b))
                               - priorityScores3 (priority (orders_of w a))) c"
  let ?w1 = "fst (assignCluster d ?sorted (w, []))"
  from Cons.prems cd have dD: "d \<in> D" and ds: "set (map snd cds) \<subseteq> D"
    and dc: "distinct c" and drest: "distinct (concat (map fst cds))"
    and disj: "set c \<inter> set (concat (map fst cds)) = {}"
    and cR: "set c \<subseteq> R" and restR: "set (concat (map fst cds)) \<subseteq> R"
    and cP: "\<forall>r \<in> set c. status (orders_of w r) = Pending"
    and restP: "\<forall>r \<in> set (concat (map fst cds)). status (orders_of w r) = Pending"
    by auto
  have J1: "\<forall>r \<in> R. orderOK ?w1 D r"
    using assignCluster_OK [OF dD, of ?sorted R w "[]"] dc cR cP Cons.prems(5)
    by (simp add: distinct_js_sort set_js_sort)
  have restP1: "\<forall>r \<in> set (concat (map fst cds)). status (orders_of ?w1 r) = Pending"
  proof
    fix r assume r: "r \<in> set (concat (map fst cds))"
    then have "r \<notin> set ?sorted" using disj by (auto simp: set_js_sort)
    then have "orders_of ?w1 r = orders_of w r" by (rule assignCluster_frame)
    moreover have "status (orders_of w r) = Pending" using restP r by blast
    ultimately show "status (orders_of ?w1 r) = Pending" by simp
  qed
  have "\<forall>r \<in> R. orderOK (fst (distanceLoop cds (?w1, a))) D r" for a
    by (rule Cons.IH [OF ds drest restR restP1 J1])
  then show ?case
    unfolding cd by (cases "assignCluster d ?sorted (w, [])") (simp add: Let_def)
qed

lemma mset_cluster:
  assumes "clusterOrdersByDistance rnd w orders k = Inr clusters"
  shows "mset (concat clusters) = mset orders"
proof (cases "length orders \<le> k")
  case True
  then have "clusters = map (\<lambda>r. [r]) orders"
    using assms by (simp add: clusterOrdersByDistance_def)
  then show ?thesis by simp
next
  case False
  then obtain cs where cs: "initCentroids rnd w orders 0 k = Inr cs" "cs \<noteq> []"
    and out: "clusters = filter (\<lambda>c. length c > 0)
        (assignToCentroids w orders (((kmeansIteration w orders) ^^ 3) cs))"
    using assms
    by (auto simp: clusterOrdersByDistance_def Let_def split: sum.splits if_splits)
  have "length (((kmeansIteration w orders) ^^ 3) cs) = length cs"
    by (rule funpow_kmeans_length)
  then have "((kmeansIteration w orders) ^^ 3) cs \<noteq> []"
    using cs(2) by auto
  then show ?thesis
    unfolding out concat_filter_nonempty by (rule mset_assignToCentroids)
qed

lemma concat_take_drop: "concat xss = concat (take n xss) @ concat (drop n xss)"
  by (metis append_take_drop_id concat_append)

lemma map_fst_zip_take': "map fst (zip xs ys) = take (length ys) xs"
  by (induction xs arbitrary: ys) (auto simp: zip_Cons1 split: list.splits)

lemma distanceOptimization_OK:
  assumes "distinct orders" "\<forall>r \<in> set orders. status (orders_of w r) = Pending"
    and "\<forall>r \<in> set orders. orderOK w (set drones) r"
    and "distanceOptimization rnd w orders drones = Inr (res, w')"
  shows "\<forall>r \<in> set orders. orderOK w' (set drones) r"
proof -
  obtain clusters where cl: "clusterOrdersByDistance rnd w orders (length drones) = Inr clusters"
    and w': "w' = fst (distanceLoop (zip clusters drones) (w, []))"
    using assms(4)
    by (auto simp: distanceOptimization_def split: sum.splits prod.splits)
  have m: "mset (concat clusters) = mset orders" by (rule mset_cluster [OF cl])
  then have d: "distinct (concat clusters)" and s: "set (concat clusters) = set orders"
    using assms(1) mset_eq_imp_distinct_iff mset_eq_setD by blast+
  let ?cds = "zip clusters drones"
  have pre: "concat clusters = concat (map fst ?cds) @ concat (drop (length drones) clusters)"
    unfolding map_fst_zip_take' by (rule concat_take_drop)
  have 1: "distinct (concat (map fst ?cds))"
    using d unfolding pre by simp
  have 2: "set (concat (map fst ?cds)) \<subseteq> set orders"
    using s unfolding pre by auto
  have 3: "set (map snd ?cds) \<subseteq> set drones"
    by (auto dest: set_zip_rightD)
  have 4: "\<forall>r \<in> set (concat (map fst ?cds)). status (orders_of w r) = Pending"
    using 2 assms(2) by blast
  show ?thesis
    unfolding w' by (rule distanceLoop_OK [OF 3 1 2 4 assms(3)])
qed


lemma greedyAssignment_OK:
  assumes "set os = set orders" "\<forall>r \<in> set orders. orderOK w (set drones) r"
  shows "\<forall>r \<in> set orders. orderOK (snd (greedyAssignment w os drones)) (set drones) r"
proof -
  let ?av = "filter (\<lambda>d. dstatus (drones_of w d) = Idle) drones"
  have "\<forall>r \<in> set orders. orderOK (fst (greedyLoop ?av os (w, [], 0))) (set drones) r"
    using greedyLoop_OK [of ?av "set drones" os "set orders" "(w, [], 0)"] assms by auto
  then show ?thesis
    by (cases "greedyLoop ?av os (w, [], 0)") (simp add: greedyAssignment_def Let_def)
qed

text \<open>
  The strategies that assign without looking at the status of the order: they rely on
  each order being handed to one drone only, by removal from the list of pending orders
  or by the partition into clusters.
\<close>

definition statusBlind :: "string \<Rightarrow> bool" where
  "statusBlind strat =
     (strat = ''capacity_optimization'' \<or> strat = ''distance_optimization'')"

text \<open>
  A store for the examples with two drones: every drone \<open>d\<close> is new, with capacity 1 and
  range 10; every order weighs 1, order 0 north of the base and the others south. Then
  the store after drone 0 took order 0, after drone 2 also took order 2, and after
  drone 2 took order 0 as well.
\<close>

definition pairWorld :: world where
  "pairWorld =
     \<lparr>orders_of = (\<lambda>r. newOrder r (if r = 0 then \<lparr>px = 10, py = 15\<rparr> else \<lparr>px = 10, py = 5\<rparr>)
                         1 Baixa 0),
      drones_of = (\<lambda>d. newDrone d 1 10)\<rparr>"

definition pairWorld1 :: world where
  "pairWorld1 = snd (assignOrder pairWorld 0 0)"

definition pairWorld2 :: world where
  "pairWorld2 = snd (assignOrder pairWorld1 2 2)"

definition dupWorld :: world where
  "dupWorld = snd (assignOrder pairWorld1 2 0)"

lemma applyOptimizationStrategy_OK:
  assumes "statusBlind strat \<longrightarrow> distinct orders"
    and "\<forall>r \<in> set orders. status (orders_of w r) = Pending"
    and "\<forall>r \<in> set orders. orderOK w (set drones) r"
    and "applyOptimizationStrategy now rnd w orders drones strat = Inr (res, w')"
  shows "\<forall>r \<in> set orders. orderOK w' (set drones) r"
proof -
  consider (prio) "strat = ''priority_first''"
      "w' = snd (priorityFirstOptimization now w orders drones)"
    | (cap) "strat = ''capacity_optimization''"
      "w' = snd (capacityOptimization now w orders drones)"
    | (dist) "strat = ''distance_optimization''"
      "distanceOptimization rnd w orders drones = Inr (res, w')"
    | (bal) "w' = snd (balancedOptimization now w orders drones)"
    using assms(4) by (auto simp: applyOptimizationStrategy_def split: if_splits)
  then show ?thesis
  proof cases
    case prio
    show ?thesis
      unfolding prio(2) priorityFirstOptimization_def Let_def
      by (rule greedyAssignment_OK [OF set_js_sort assms(3)])
  next
    case cap
    then have "distinct orders" using assms(1) by (simp add: statusBlind_def)
    then show ?thesis
      unfolding cap(2) by (rule capacityOptimization_OK [OF _ assms(3)])
  next
    case dist
    then have "distinct orders" using assms(1) by (simp add: statusBlind_def)
    then show ?thesis
      by (rule distanceOptimization_OK [OF _ assms(2,3) dist(2)])
  next
    case bal
    show ?thesis
      unfolding bal balancedOptimization_def Let_def
      by (rule greedyAssignment_OK [OF set_js_sort assms(3)])
  qed
qed

lemma optimizeDeliveries_OK:
  assumes "statusBlind (selectOptimizationStrategy (analyzeDeliveryScenario w orders drones))
             \<longrightarrow> distinct orders"
    and "\<forall>r \<in> set orders. status (orders_of w r) = Pending"
    and "\<forall>r \<in> set orders. orderOK w (set drones) r"
    and "optimizeDeliveries now rnd w orders drones = Inr (res, w')"
  shows "\<forall>r \<in> set orders. orderOK w' (set drones) r"
proof (cases "length orders = 0 \<or> length drones = 0")
  case True
  with assms(3,4) show ?thesis by (auto simp: optimizeDeliveries_def)
next
  case False
  then have "applyOptimizationStrategy now rnd w orders drones
      (selectOptimizationStrategy (analyzeDeliveryScenario w orders drones)) = Inr (res, w')"
    using assms(4) by (simp add: optimizeDeliveries_def Let_def)
  then show ?thesis by (rule applyOptimizationStrategy_OK [OF assms(1,2,3)])
qed

lemma orderOK_assigned:
  "orderOK w D r \<Longrightarrow> status (orders_of w r) = Assigned \<Longrightarrow> singlyAssigned w D r"
  by (auto simp: orderOK_def)

text \<open>
  C7 (as amended). Take orders that are all pending and held by no drone of the list.
  After \<open>applyOptimizationStrategy\<close> or \<open>optimizeDeliveries\<close> returns, every order of the
  list whose status is \<open>Assigned\<close> is in the \<open>assignedOrders\<close> of exactly one drone, once,
  and its \<open>assignedDrone\<close> is the id of that drone, provided no order is listed twice when
  the strategy is the capacity or the distance optimisation. The greedy pass, and so
  the priority-first and balanced strategies, need no such proviso: the pass skips an
  order that is no longer pending.
\<close>

theorem no_double_assignment:
  assumes "\<forall>r \<in> set orders. status (orders_of w r) = Pending \<and> unheld w (set drones) r"
  shows "(applyOptimizationStrategy now rnd w orders drones strat = Inr (res, w') \<and>
          (statusBlind strat \<longrightarrow> distinct orders) \<longrightarrow>
          (\<forall>r \<in> set orders. status (orders_of w' r) = Assigned \<longrightarrow>
             singlyAssigned w' (set drones) r)) \<and>
         (optimizeDeliveries now rnd w orders drones = Inr (res, w') \<and>
          (statusBlind (selectOptimizationStrategy (analyzeDeliveryScenario w orders drones))
             \<longrightarrow> distinct orders) \<longrightarrow>
          (\<forall>r \<in> set orders. status (orders_of w' r) = Assigned \<longrightarrow>
             singlyAssigned w' (set drones) r)) \<and>
         (\<forall>r \<in> set orders.
             status (orders_of (snd (greedyAssignment w orders drones)) r) = Assigned \<longrightarrow>
             singlyAssigned (snd (greedyAssignment w orders drones)) (set drones) r)"
proof -
  have pend: "\<forall>r \<in> set orders. status (orders_of w r) = Pending"
    and J: "\<forall>r \<in> set orders. orderOK w (set drones) r"
    using assms by (auto simp: orderOK_def)
  have "\<forall>r \<in> set orders. orderOK w' (set drones) r"
    if "applyOptimizationStrategy now rnd w orders drones strat = Inr (res, w')"
      "statusBlind strat \<longrightarrow> distinct orders"
    using applyOptimizationStrategy_OK [OF that(2) pend J that(1)] .
  moreover have "\<forall>r \<in> set orders. orderOK w' (set drones) r"
    if "optimizeDeliveries now rnd w orders drones = Inr (res, w')"
      "statusBlind (selectOptimizationStrategy (analyzeDeliveryScenario w orders drones))
         \<longrightarrow> distinct orders"
    using optimizeDeliveries_OK [OF that(2) pend J that(1)] .
  moreover have "\<forall>r \<in> set orders.
      orderOK (snd (greedyAssignment w orders drones)) (set drones) r"
    by (rule greedyAssignment_OK [OF refl J])
  ultimately show ?thesis
    using orderOK_assigned by blast
qed

lemma pair_drone: "drones_of pairWorld d = newDrone d 1 10"
  by (simp add: pairWorld_def)

lemma pair_order0: "orders_of pairWorld 0 = newOrder 0 \<lparr>px = 10, py = 15\<rparr> 1 Baixa 0"
  by (simp add: pairWorld_def)

lemma pair_order2: "orders_of pairWorld 2 = newOrder 2 \<lparr>px = 10, py = 5\<rparr> 1 Baixa 0"
  by (simp add: pairWorld_def)

lemma pair_carry00: "canCarryOrder (drones_of pairWorld 0) (orders_of pairWorld 0)"
  by (simp add: pair_drone pair_order0 canCarryOrder_def newDrone_def newOrder_def
      calculateDistance_same_x calculateBatteryNeeded_def)

lemma pair_carry02: "canCarryOrder (drones_of pairWorld 0) (orders_of pairWorld 2)"
  by (simp add: pair_drone pair_order2 canCarryOrder_def newDrone_def newOrder_def
      calculateDistance_same_x calculateBatteryNeeded_def)

lemma pair_assign0: "assignOrder pairWorld 0 0 = (True, pairWorld1)"
  using assignOrder_effect [of pairWorld 0 0] pair_carry00
  by (simp add: pairWorld1_def prod_eq_iff)

lemma pair1_drone0:
  "drones_of pairWorld1 0 = (newDrone 0 1 10)\<lparr>assignedOrders := [0], currentLoad := 1\<rparr>"
  using assignOrder_effect [of pairWorld 0 0] pair_carry00
  by (simp add: pairWorld1_def pair_drone pair_order0 newDrone_def newOrder_def)

lemma pair1_drone2: "drones_of pairWorld1 2 = newDrone 2 1 10"
  using assignOrder_effect [of pairWorld 0 0] pair_carry00
  by (simp add: pairWorld1_def pair_drone)

lemma pair1_order0:
  "orders_of pairWorld1 0 = (newOrder 0 \<lparr>px = 10, py = 15\<rparr> 1 Baixa 0)
      \<lparr>status := Assigned, assignedDrone := Some 0\<rparr>"
  using assignOrder_effect [of pairWorld 0 0] pair_carry00
  by (simp add: pairWorld1_def pair_order0 pair_drone newDrone_def)

lemma pair1_order2: "orders_of pairWorld1 2 = newOrder 2 \<lparr>px = 10, py = 5\<rparr> 1 Baixa 0"
  using assignOrder_effect [of pairWorld 0 0] pair_carry00
  by (simp add: pairWorld1_def pair_order2)

lemma pair1_carry00: "\<not> canCarryOrder (drones_of pairWorld1 0) (orders_of pairWorld1 0)"
  by (simp add: pair1_drone0 pair1_order0 canCarryOrder_def newDrone_def newOrder_def)

lemma pair1_carry02: "\<not> canCarryOrder (drones_of pairWorld1 0) (orders_of pairWorld1 2)"
  by (simp add: pair1_drone0 pair1_order2 canCarryOrder_def newDrone_def newOrder_def)

lemma pair1_carry22: "canCarryOrder (drones_of pairWorld1 2) (orders_of pairWorld1 2)"
  by (simp add: pair1_drone2 pair1_order2 canCarryOrder_def newDrone_def newOrder_def
      calculateDistance_same_x calculateBatteryNeeded_def)

lemma pair1_carry20: "canCarryOrder (drones_of pairWorld1 2) (orders_of pairWorld1 0)"
  by (simp add: pair1_drone2 pair1_order0 canCarryOrder_def newDrone_def newOrder_def
      calculateDistance_same_x calculateBatteryNeeded_def)

lemma pair_assign2: "assignOrder pairWorld1 2 2 = (True, pairWorld2)"
  using assignOrder_effect [of pairWorld1 2 2] pair1_carry22
  by (simp add: pairWorld2_def prod_eq_iff)

lemma pair_assign_dup: "assignOrder pairWorld1 2 0 = (True, dupWorld)"
  using assignOrder_effect [of pairWorld1 2 0] pair1_carry20
  by (simp add: dupWorld_def prod_eq_iff)

lemma pair2_facts:
  "assignedOrders (drones_of pairWorld2 0) = [0]"
  "assignedOrders (drones_of pairWorld2 2) = [2]"
  "status (orders_of pairWorld2 0) = Assigned"
  "status (orders_of pairWorld2 2) = Assigned"
  "assignedDrone (orders_of pairWorld2 0) = Some 0"
  "assignedDrone (orders_of pairWorld2 2) = Some 2"
  "drone_id (drones_of pairWorld2 0) = 0"
  "drone_id (drones_of pairWorld2 2) = 2"
  using assignOrder_effect [of pairWorld1 2 2] pair1_carry22
  by (simp_all add: pairWorld2_def pair1_drone0 pair1_drone2 pair1_order0 pair1_order2
      newDrone_def newOrder_def)

lemma dup_facts:
  "assignedOrders (drones_of dupWorld 0) = [0]"
  "assignedOrders (drones_of dupWorld 2) = [0]"
  "status (orders_of dupWorld 0) = Assigned"
  using assignOrder_effect [of pairWorld1 2 0] pair1_carry20
  by (simp_all add: dupWorld_def pair1_drone0 pair1_drone2 pair1_order0
      newDrone_def newOrder_def)


lemma pair_weights:
  "weight (orders_of pairWorld 0) = 1" "weight (orders_of pairWorld 2) = 1"
  "weight (orders_of pairWorld1 0) = 1" "weight (orders_of pairWorld1 2) = 1"
  by (simp_all add: pair_order0 pair_order2 pair1_order0 pair1_order2 newOrder_def)

lemma pair_room:
  "capacity (drones_of pairWorld 0) - currentLoad (drones_of pairWorld 0) = 1"
  "capacity (drones_of pairWorld1 2) - currentLoad (drones_of pairWorld1 2) = 1"
  by (simp_all add: pair_drone pair1_drone2 newDrone_def)

lemma pair_scores:
  "calculateOrderEfficiencyScore 0 (orders_of pairWorld 2) (drones_of pairWorld 0)
     = calculateOrderEfficiencyScore 0 (orders_of pairWorld 0) (drones_of pairWorld 0)"
  by (simp add: calculateOrderEfficiencyScore_def pair_order0 pair_order2 pair_drone
      newOrder_def newDrone_def calculateDistance_same_x getWaitingTime_def)

lemma pair_best_0: "findBestOrderCombination 0 pairWorld [0, 2] 0 = [0]"
  by (simp add: findBestOrderCombination_def Let_def js_sort_def pair_carry00 pair_carry02
      pair_scores pair_weights pair_room)

lemma pair_best_2: "findBestOrderCombination 0 pairWorld1 [2] 2 = [2]"
  by (simp add: findBestOrderCombination_def Let_def js_sort_def pair1_carry22
      pair_weights pair_room)

lemma pair_best_dup0: "findBestOrderCombination 0 pairWorld [0, 0] 0 = [0]"
  by (simp add: findBestOrderCombination_def Let_def js_sort_def pair_carry00
      pair_weights pair_room)

lemma pair_best_dup2: "findBestOrderCombination 0 pairWorld1 [0] 2 = [0]"
  by (simp add: findBestOrderCombination_def Let_def js_sort_def pair1_carry20
      pair_weights pair_room)

lemma pair_capacity_run:
  "fst (capacityLoop 0 [0, 2] (pairWorld, [0, 2], [])) = pairWorld2"
  by (simp add: pair_best_0 pair_best_2 pair_assign0 pair_assign2 spliceIndexOf_def)

lemma pair_capacity_dup_run:
  "fst (capacityLoop 0 [0, 2] (pairWorld, [0, 0], [])) = dupWorld"
  by (simp add: pair_best_dup0 pair_best_dup2 pair_assign0 pair_assign_dup spliceIndexOf_def)

lemma snd_capacityOptimization:
  "snd (capacityOptimization now w orders drones) =
     fst (capacityLoop now (filter (\<lambda>d. dstatus (drones_of w d) = Idle) drones)
            (w, filter (\<lambda>r. status (orders_of w r) = Pending) orders, []))"
  by (simp add: capacityOptimization_def Let_def split: prod.splits)

lemma pair_apply_capacity:
  "map_sum id snd (applyOptimizationStrategy 0 rnd pairWorld [0, 2] [0, 2]
      ''capacity_optimization'') = Inr pairWorld2"
  by (simp add: applyOptimizationStrategy_def snd_capacityOptimization pair_drone
      pair_order0 pair_order2 newDrone_def newOrder_def pair_capacity_run
      del: capacityLoop.simps)

lemma pair_apply_capacity_dup:
  "map_sum id snd (applyOptimizationStrategy 0 rnd pairWorld [0, 0] [0, 2]
      ''capacity_optimization'') = Inr dupWorld"
  by (simp add: applyOptimizationStrategy_def snd_capacityOptimization pair_drone
      pair_order0 newDrone_def newOrder_def pair_capacity_dup_run
      del: capacityLoop.simps)


lemma pair_best_drone: "fst (bestDroneLoop pairWorld 0 [0, 2] (None, Fin (- 1))) = Some 0"
  by (simp add: calculateAssignmentScore_def pair_drone pair_order0 newDrone_def
      newOrder_def jdiv_def calculateDistance_same_x canCarryOrder_def
      calculateBatteryNeeded_def Let_def)

lemma pair_greedy_dup:
  "fst (greedyLoop [0, 2] [0, 0] (pairWorld, [], 0)) = pairWorld1"
  by (simp add: pair_best_drone pair_assign0 pair_order0 pair1_order0 newOrder_def
      del: bestDroneLoop.simps)

lemma snd_greedyAssignment:
  "snd (greedyAssignment w orders drones) =
     fst (greedyLoop (filter (\<lambda>d. dstatus (drones_of w d) = Idle) drones) orders (w, [], 0))"
  by (simp add: greedyAssignment_def Let_def split: prod.splits)

lemma pair_apply_balanced_dup:
  "map_sum id snd (applyOptimizationStrategy 0 rnd pairWorld [0, 0] [0, 2]
      ''balanced_optimization'') = Inr pairWorld1"
  by (simp add: applyOptimizationStrategy_def balancedOptimization_def js_sort_def
      snd_greedyAssignment pair_drone newDrone_def pair_greedy_dup
      del: greedyLoop.simps)

text \<open>
  C7 as stated fails when the list names an order twice: the capacity optimisation
  removes one copy from its pending list and hands the other copy to the next drone.
\<close>

theorem no_double_assignment_fails_on_repeated_order:
  "status (orders_of pairWorld 0) = Pending \<and> unheld pairWorld (set [0, 2]) 0 \<and>
   map_sum id snd (applyOptimizationStrategy 0 drawsA pairWorld [0, 0] [0, 2]
      ''capacity_optimization'') = Inr dupWorld \<and>
   status (orders_of dupWorld 0) = Assigned \<and>
   assignedOrders (drones_of dupWorld 0) = [0] \<and>
   assignedOrders (drones_of dupWorld 2) = [0] \<and>
   \<not> singlyAssigned dupWorld (set [0, 2]) 0"
proof -
  have "\<not> singlyAssigned dupWorld (set [0, 2]) 0"
    by (auto simp: singlyAssigned_def dup_facts)
  then show ?thesis
    by (simp add: pair_apply_capacity_dup dup_facts unheld_def pair_drone pair_order0
        newDrone_def newOrder_def)
qed

theorem no_double_assignment_witness:
  "status (orders_of pairWorld 0) = Pending \<and> unheld pairWorld (set [0, 2]) 0 \<and>
   status (orders_of pairWorld 2) = Pending \<and> unheld pairWorld (set [0, 2]) 2 \<and>
   distinct [0, 2 :: nat] \<and>
   map_sum id snd (applyOptimizationStrategy 0 drawsA pairWorld [0, 2] [0, 2]
      ''capacity_optimization'') = Inr pairWorld2 \<and>
   status (orders_of pairWorld2 0) = Assigned \<and> singlyAssigned pairWorld2 (set [0, 2]) 0 \<and>
   status (orders_of pairWorld2 2) = Assigned \<and> singlyAssigned pairWorld2 (set [0, 2]) 2 \<and>
   assignedOrders (drones_of pairWorld2 0) = [0] \<and>
   assignedOrders (drones_of pairWorld2 2) = [2] \<and>
   \<not> statusBlind ''balanced_optimization'' \<and> \<not> distinct [0, 0 :: nat] \<and>
   map_sum id snd (applyOptimizationStrategy 0 drawsA pairWorld [0, 0] [0, 2]
      ''balanced_optimization'') = Inr pairWorld1 \<and>
   status (orders_of pairWorld1 0) = Assigned \<and> singlyAssigned pairWorld1 (set [0, 2]) 0"
proof -
  have pre: "\<forall>r \<in> set [0, 2]. status (orders_of pairWorld r) = Pending \<and>
      unheld pairWorld (set [0, 2]) r"
    by (simp add: unheld_def pair_drone pair_order0 pair_order2 newDrone_def newOrder_def)
  have pre0: "\<forall>r \<in> set [0, 0]. status (orders_of pairWorld r) = Pending \<and>
      unheld pairWorld (set [0, 2]) r"
    using pre by simp
  obtain res where run: "applyOptimizationStrategy 0 drawsA pairWorld [0, 2] [0, 2]
      ''capacity_optimization'' = Inr (res, pairWorld2)"
    using pair_apply_capacity [of drawsA]
    by (cases "applyOptimizationStrategy 0 drawsA pairWorld [0, 2] [0, 2]
      ''capacity_optimization''") auto
  obtain res0 where run0: "applyOptimizationStrategy 0 drawsA pairWorld [0, 0] [0, 2]
      ''balanced_optimization'' = Inr (res0, pairWorld1)"
    using pair_apply_balanced_dup [of drawsA]
    by (cases "applyOptimizationStrategy 0 drawsA pairWorld [0, 0] [0, 2]
      ''balanced_optimization''") auto
  have blind: "\<not> statusBlind ''balanced_optimization''"
    by (simp add: statusBlind_def)
  have "\<forall>r \<in> set [0, 2]. status (orders_of pairWorld2 r) = Assigned \<longrightarrow>
      singlyAssigned pairWorld2 (set [0, 2]) r"
    using no_double_assignment [OF pre, of 0 drawsA "''capacity_optimization''" res pairWorld2]
      run by simp
  then have a: "singlyAssigned pairWorld2 (set [0, 2]) 0" "singlyAssigned pairWorld2 (set [0, 2]) 2"
    by (simp_all add: pair2_facts)
  have "\<forall>r \<in> set [0, 0]. status (orders_of pairWorld1 r) = Assigned \<longrightarrow>
      singlyAssigned pairWorld1 (set [0, 2]) r"
    using no_double_assignment [OF pre0, of 0 drawsA "''balanced_optimization''" res0 pairWorld1]
      run0 blind by simp
  then have b: "singlyAssigned pairWorld1 (set [0, 2]) 0"
    by (simp add: pair1_order0)
  show ?thesis
    using pre a b blind
    by (simp add: pair_apply_capacity pair_apply_balanced_dup pair2_facts pair1_order0)
qed

end
